theory Spec2Isabelle
  imports Complex_Main
begin

section \<open>JavaScript numbers as the plugin uses them\<close>

text \<open>
  The plugin computes a frame number from three measurements of the page by a division,
  a multiplication, \<open>Math.ceil\<close> and \<open>Math.max\<close>. JavaScript numbers contain \<open>NaN\<close> and the
  two infinities, and a division by zero yields one of them instead of raising. The
  finite part is modelled with exact rationals (no rounding), the special values are
  written out.
\<close>

datatype jsreal = Fin rat | RNaN | RPosInf | RNegInf

text \<open>Integer-valued JavaScript numbers: frame numbers, results of \<open>Math.ceil\<close>.\<close>

datatype jsnum = Num int | NaN | PosInf | NegInf

text \<open>
  \<open>a / b\<close> for two finite numbers. (A zero denominator arising from a subtraction of
  finite numbers is \<open>+0\<close>.)
\<close>

definition js_div :: "rat \<Rightarrow> rat \<Rightarrow> jsreal" where
  "js_div a b =
     (if b = 0 then (if a = 0 then RNaN else if 0 < a then RPosInf else RNegInf)
      else Fin (a / b))"

fun js_mul :: "int \<Rightarrow> jsreal \<Rightarrow> jsreal" where
  "js_mul n (Fin x) = Fin (of_int n * x)"
| "js_mul n RNaN = RNaN"
| "js_mul n RPosInf = (if n = 0 then RNaN else if 0 < n then RPosInf else RNegInf)"
| "js_mul n RNegInf = (if n = 0 then RNaN else if 0 < n then RNegInf else RPosInf)"

fun math_ceil :: "jsreal \<Rightarrow> jsnum" where
  "math_ceil (Fin x) = Num \<lceil>x\<rceil>"
| "math_ceil RNaN = NaN"
| "math_ceil RPosInf = PosInf"
| "math_ceil RNegInf = NegInf"

fun math_max :: "int \<Rightarrow> jsnum \<Rightarrow> jsnum" where
  "math_max a (Num b) = Num (max a b)"
| "math_max a NaN = NaN"
| "math_max a PosInf = PosInf"
| "math_max a NegInf = Num a"

text \<open>\<open>x + i\<close> for an integer \<open>i\<close>.\<close>

fun js_add :: "jsnum \<Rightarrow> int \<Rightarrow> jsnum" where
  "js_add (Num a) i = Num (a + i)"
| "js_add NaN i = NaN"
| "js_add PosInf i = PosInf"
| "js_add NegInf i = NegInf"

text \<open>The relational operators: every comparison with \<open>NaN\<close> is false.\<close>

fun js_lt :: "jsnum \<Rightarrow> jsnum \<Rightarrow> bool" where
  "js_lt NaN _ = False"
| "js_lt _ NaN = False"
| "js_lt (Num a) (Num b) = (a < b)"
| "js_lt (Num a) PosInf = True"
| "js_lt (Num a) NegInf = False"
| "js_lt PosInf _ = False"
| "js_lt NegInf NegInf = False"
| "js_lt NegInf _ = True"

definition js_gt :: "jsnum \<Rightarrow> jsnum \<Rightarrow> bool" where
  "js_gt a b = js_lt b a"

text \<open>\<open>a <= b\<close> and the equality \<open>==\<close> / \<open>===\<close> of two numbers (\<open>NaN\<close> equals nothing).\<close>

definition js_eq :: "jsnum \<Rightarrow> jsnum \<Rightarrow> bool" where
  "js_eq a b = (a \<noteq> NaN \<and> b \<noteq> NaN \<and> a = b)"

definition js_le :: "jsnum \<Rightarrow> jsnum \<Rightarrow> bool" where
  "js_le a b = (js_lt a b \<or> js_eq a b)"

text \<open>\<open>xs.indexOf(x) !== -1\<close>: membership by strict equality.\<close>

definition js_mem :: "jsnum \<Rightarrow> jsnum list \<Rightarrow> bool" where
  "js_mem x xs = (\<exists>y \<in> set xs. js_eq y x)"

section \<open>Decimal strings and \<open>zerofill\<close>\<close>

definition digit_char :: "nat \<Rightarrow> char" where
  "digit_char d = ''0123456789'' ! d"

fun dec_nat :: "nat \<Rightarrow> string" where
  "dec_nat n = (if n < 10 then [digit_char n] else dec_nat (n div 10) @ [digit_char (n mod 10)])"

declare dec_nat.simps [simp del]

text \<open>\<open>String(num)\<close>.\<close>

fun js_String :: "jsnum \<Rightarrow> string" where
  "js_String (Num k) = (if k < 0 then CHR ''-'' # dec_nat (nat (- k)) else dec_nat (nat k))"
| "js_String NaN = ''NaN''"
| "js_String PosInf = ''Infinity''"
| "js_String NegInf = ''-Infinity''"

text \<open>
  The loop \<open>while (numStr.length < len) numStr = '0' + numStr\<close> of \<open>zerofill\<close>.
\<close>

function zerofill_loop :: "string \<Rightarrow> int \<Rightarrow> string" where
  "zerofill_loop numStr len =
     (if int (length numStr) < len then zerofill_loop (CHR ''0'' # numStr) len else numStr)"
  by pat_completeness auto
termination
  by (relation "measure (\<lambda>(numStr, len). nat (len - int (length numStr)))") auto

declare zerofill_loop.simps [simp del]

text \<open>
  \<open>zerofill(num, len)\<close>; \<open>imgStrLen\<close> is the module variable used when \<open>len\<close> is
  \<open>undefined\<close> (here \<open>None\<close>).
\<close>

definition zerofill :: "int \<Rightarrow> jsnum \<Rightarrow> int option \<Rightarrow> string" where
  "zerofill imgStrLen num len =
     zerofill_loop (js_String num) (case len of None \<Rightarrow> imgStrLen | Some l \<Rightarrow> l)"

section \<open>Frame targeting\<close>

text \<open>What the page reports: \<open>$(document).scrollTop()\<close>, \<open>$(document).height()\<close>,
  \<open>$(window).height()\<close>, and whether \<open>$.fn.imagesLoaded\<close> is defined.\<close>

record env =
  scrollTop :: rat
  documentHeight :: rat
  windowHeight :: rat
  imagesLoaded_available :: bool

definition calculateCurrent :: "int \<Rightarrow> env \<Rightarrow> jsnum" where
  "calculateCurrent numImages e =
     (let currentPercent = js_div (scrollTop e) (documentHeight e - windowHeight e)
      in math_max 1 (math_ceil (js_mul numImages currentPercent)))"

section \<open>Module state\<close>

text \<open>
  An \<open>img\<close> element as \<open>generateImg\<close> writes it: the \<open>data-frame\<close> attribute, whether
  \<open>data-upgraded="1"\<close> is present, whether it is displayed, and its \<open>src\<close>. The
  \<open>data-frame\<close> attribute holds \<open>String(frame)\<close>; the selector
  \<open>img[data-frame="..."]\<close> compares these strings, and \<open>String\<close> is one-to-one on the four
  kinds of number, so the tag is kept as the number itself.
\<close>

record img =
  tag :: jsnum
  upgraded :: bool
  visible :: bool
  src :: string

text \<open>
  A child of the host element: an image with the identity of its DOM node, or the
  \<open>span#upgradeWrapper\<close> that \<open>init\<close> appends.
\<close>

datatype child = Img nat img | Span

text \<open>
  The callbacks the plugin hands to the browser: the \<open>imagesLoaded\<close> callbacks of
  \<open>showFrameWhenReady\<close> and \<open>upgradeFrame\<close>, the timer of \<open>onImagePreloaded\<close>, the
  debounce timer of \<open>scroll\<close>, and the animation frame request of \<open>animate\<close>.
\<close>

datatype callback =
    ShowFrameCb jsnum
  | UpgradeCb jsnum
  | PreloadTimer
  | CheckForScrollTimer
  | AnimateTick

text \<open>
  The object \<open>defaults\<close>, and \<open>settings\<close> with the three required attributes. The two
  callbacks are kept as \<open>typeof ... === 'function'\<close>.
\<close>

record optional_settings =
  imgFormat :: string
  upgradeHighRes :: bool
  imgDirBig :: string
  buffer :: int
  preload_opt :: bool
  requestAnimationFramePolyfill :: bool
  onPreloaded :: bool
  onShowFrame :: bool

record settings = optional_settings +
  numImages :: int
  imgDir :: string
  imgName :: string

text \<open>
  The variables of the plugin's closure, the children of the element \<open>$this\<close> wraps, and
  what the plugin has asked of the browser: the callbacks it has registered, in order
  (\<open>pending\<close>; a registration stays in the list when the callback has run, only
  \<open>clearTimeout\<close> takes the debounce timer out), the \<open>src\<close> assignments of
  \<open>preloadNext\<close> (request type, frame, url), and the calls of the two user callbacks
  (\<open>onShowFrame\<close> with the children it could observe when called). The operations
  below are modelled for a module whose \<open>$this\<close> wraps an element: before \<open>init\<close> it is
  the plain object \<open>{}\<close>, on which the two public methods raise a TypeError.
\<close>

record state =
  settings :: settings
  defaults :: optional_settings
  currentImg :: jsnum
  imgStrLen :: int
  animating :: bool
  buffering :: bool
  this_host :: "nat option"
  dom :: "child list"
  preloaded :: "jsnum list"
  allPreloaded :: bool
  preloadedBig :: "jsnum list"
  lastCurrentImg :: jsnum
  frame_ref :: "nat list"
  upgradeWrapper :: "img list option"
  next_id :: nat
  pending :: "callback list"
  fetched :: "(nat \<times> int \<times> string) list"
  onPreloaded_calls :: nat
  onShowFrame_calls :: "(jsnum \<times> child list) list"
  scroll_handlers :: nat

datatype error =
    RequiredSettingsNotSupplied
  | RequiredSettingNotSupplied string
  | NoImgDirBigSupplied
  | ImagesLoadedNotFound
  | TypeError

text \<open>A call either returns or throws; the closure's variables survive a throw.\<close>

datatype outcome = Done state | Thrown error state

subsection \<open>Selecting children\<close>

text \<open>\<open>$this.children('img')\<close> and \<open>$this.children('img[data-frame="' + frame + '"]')\<close>.\<close>

fun imgs :: "child list \<Rightarrow> (nat \<times> img) list" where
  "imgs [] = []"
| "imgs (Img i im # cs) = (i, im) # imgs cs"
| "imgs (Span # cs) = imgs cs"

definition frame_imgs :: "child list \<Rightarrow> jsnum \<Rightarrow> (nat \<times> img) list" where
  "frame_imgs cs frame = filter (\<lambda>(i, im). tag im = frame) (imgs cs)"

definition append_img :: "img \<Rightarrow> state \<Rightarrow> state" where
  "append_img im s = s\<lparr>dom := dom s @ [Img (next_id s) im], next_id := Suc (next_id s)\<rparr>"

section \<open>Preloading\<close>

definition markAsPreloaded :: "jsnum \<Rightarrow> state \<Rightarrow> state" where
  "markAsPreloaded frame s =
     (if \<not> js_mem frame (preloaded s) then s\<lparr>preloaded := preloaded s @ [frame]\<rparr> else s)"

definition markBigAsPreloaded :: "jsnum \<Rightarrow> state \<Rightarrow> state" where
  "markBigAsPreloaded frame s =
     (if \<not> js_mem frame (preloadedBig s) then s\<lparr>preloadedBig := preloadedBig s @ [frame]\<rparr> else s)"

definition onImagePreloaded :: "jsnum \<Rightarrow> nat \<Rightarrow> state \<Rightarrow> state" where
  "onImagePreloaded idn type s =
     (let s1 = (if type = 1 then markAsPreloaded idn s
                else if type = 2 then markBigAsPreloaded idn s else s)
      in s1\<lparr>pending := pending s1 @ [PreloadTimer]\<rparr>)"

text \<open>
  \<open>preloadNext\<close>: the first \<open>i\<close> of \<open>1..numImages\<close> not yet in the array of the requested
  type. The line \<open>image.onLoad = onImagePreloaded(i, type)\<close> calls \<open>onImagePreloaded\<close>
  at once, before the \<open>src\<close> is assigned.
\<close>

definition preloadNext :: "nat \<Rightarrow> state \<Rightarrow> state" where
  "preloadNext type s =
     (if \<not> animating s \<and> \<not> buffering s then
        (case find (\<lambda>i. type = 1 \<and> \<not> js_mem (Num i) (preloaded s) \<or>
                         type = 2 \<and> \<not> js_mem (Num i) (preloadedBig s))
                   [1 .. numImages (settings s)] of
           None \<Rightarrow> s
         | Some i \<Rightarrow>
             (let s1 = onImagePreloaded (Num i) type s
              in s1\<lparr>fetched := fetched s1 @
                   [(type, i,
                     (if type = 1 then imgDir (settings s1) else imgDirBig (settings s1)) @
                     imgName (settings s1) @ zerofill (imgStrLen s1) (Num i) None @
                     imgFormat (settings s1))]\<rparr>))
      else s)"

function preload :: "state \<Rightarrow> state" where
  "preload s =
     (if preload_opt (settings s) then
        (if int (length (preloaded s)) < numImages (settings s) then preloadNext 1 s
         else if int (length (preloaded s)) \<ge> numImages (settings s) \<and> \<not> allPreloaded s then
           preload (s\<lparr>allPreloaded := True,
                      onPreloaded_calls :=
                        (if onPreloaded (settings s) then Suc (onPreloaded_calls s)
                         else onPreloaded_calls s)\<rparr>)
         else if allPreloaded s \<and> int (length (preloadedBig s)) < numImages (settings s) then
           preloadNext 2 s
         else s)
      else s)"
  by pat_completeness auto
termination
  by (relation "measure (\<lambda>s. if allPreloaded s then 0 else 1)") auto

declare preload.simps [simp del]

section \<open>Generating image elements\<close>

definition generateImg :: "state \<Rightarrow> jsnum \<Rightarrow> bool \<Rightarrow> img" where
  "generateImg s idn highres =
     (if highres \<or> js_mem idn (preloadedBig s) then
        \<lparr>tag = idn, upgraded = True, visible = False,
         src = imgDirBig (settings s) @ imgName (settings s) @
               zerofill (imgStrLen s) idn None @ imgFormat (settings s)\<rparr>
      else
        \<lparr>tag = idn, upgraded = False, visible = False,
         src = imgDir (settings s) @ imgName (settings s) @
               zerofill (imgStrLen s) idn None @ imgFormat (settings s)\<rparr>)"

section \<open>Buffering and showing frames\<close>

text \<open>
  One round of the loop \<open>for (var i = -settings.buffer; i < settings.buffer; i++)\<close> of
  \<open>bufferFromFrame\<close>.
\<close>

definition buffer_step :: "jsnum \<Rightarrow> int \<Rightarrow> state \<Rightarrow> state" where
  "buffer_step frame i s =
     (let frameToBuffer = js_add frame i
      in if frame_imgs (dom s) frameToBuffer = [] \<and>
            js_gt frameToBuffer (Num 0) \<and>
            js_le frameToBuffer (Num (numImages (settings s)))
         then markAsPreloaded frameToBuffer (append_img (generateImg s frameToBuffer False) s)
         else s)"

text \<open>The test of the \<open>each\<close> loop that removes images outside the buffer range.\<close>

definition outside_buffer :: "state \<Rightarrow> jsnum \<Rightarrow> child \<Rightarrow> bool" where
  "outside_buffer s frame c =
     (case c of
        Img i im \<Rightarrow> js_lt (tag im) (js_add frame (- buffer (settings s))) \<or>
                    js_gt (tag im) (js_add frame (buffer (settings s)))
      | Span \<Rightarrow> False)"

definition bufferFromFrame :: "jsnum \<Rightarrow> state \<Rightarrow> state" where
  "bufferFromFrame frame s =
     (let s1 = s\<lparr>dom := filter (\<lambda>c. \<not> outside_buffer s frame c) (dom s)\<rparr>;
          s2 = (if int (length (imgs (dom s1))) < buffer (settings s1) * 2
                then fold (buffer_step frame)
                       [- buffer (settings s1) .. buffer (settings s1) - 1] s1
                else s1)
      in preload (s2\<lparr>buffering := False\<rparr>))"

fun set_visible :: "bool \<Rightarrow> child \<Rightarrow> child" where
  "set_visible v (Img i im) = Img i (im\<lparr>visible := v\<rparr>)"
| "set_visible v Span = Span"

fun has_tag :: "jsnum \<Rightarrow> child \<Rightarrow> bool" where
  "has_tag frame (Img i im) = (tag im = frame)"
| "has_tag frame Span = False"

definition showFrame :: "jsnum \<Rightarrow> state \<Rightarrow> state" where
  "showFrame frame s =
     (let s1 = (if onShowFrame (settings s)
                then s\<lparr>onShowFrame_calls := onShowFrame_calls s @ [(frame, dom s)]\<rparr> else s);
          s2 = s1\<lparr>dom := map (set_visible False) (dom s1)\<rparr>;
          s3 = s2\<lparr>dom := map (\<lambda>c. if has_tag frame c then set_visible True c else c) (dom s2)\<rparr>;
          s4 = markAsPreloaded frame s3
      in bufferFromFrame frame s4)"

text \<open>
  \<open>showFrameWhenReady\<close>: when the frame has no image yet, one is appended and
  \<open>showFrame\<close> is left to the \<open>imagesLoaded\<close> callback.
\<close>

definition showFrameWhenReady :: "jsnum \<Rightarrow> state \<Rightarrow> state" where
  "showFrameWhenReady frame s =
     (if frame_imgs (dom s) frame = [] then
        (let s1 = s\<lparr>buffering := True\<rparr>;
             s2 = append_img (generateImg s1 frame False) s1
         in s2\<lparr>pending := pending s2 @ [ShowFrameCb frame]\<rparr>)
      else showFrame frame s)"

section \<open>Upgrading a frame to high resolution\<close>

text \<open>
  \<open>upgradeFrame\<close> up to the registration of its \<open>imagesLoaded\<close> callback. \<open>$frame\<close> is a
  variable of the closure (there is no \<open>var\<close>). \<open>$frame.data('upgraded')\<close> reads the
  first element of the selection, and is \<open>undefined\<close> for an empty selection or a
  low-resolution image. \<open>$upgradeWrapper\<close> is the plain object \<open>{}\<close> until \<open>init\<close> creates
  the wrapper; calling \<open>empty\<close> on it is a TypeError.
\<close>

definition upgradeFrame :: "jsnum \<Rightarrow> state \<Rightarrow> outcome" where
  "upgradeFrame frame s =
     (let s1 = s\<lparr>frame_ref := map fst (frame_imgs (dom s) frame)\<rparr>
      in if \<not> (case frame_imgs (dom s) frame of [] \<Rightarrow> False | (i, im) # _ \<Rightarrow> upgraded im) then
           (case upgradeWrapper s1 of
              None \<Rightarrow> Thrown TypeError s1
            | Some w \<Rightarrow>
                Done (s1\<lparr>upgradeWrapper := Some [generateImg s1 frame True],
                         pending := pending s1 @ [UpgradeCb frame]\<rparr>))
         else Done s1)"

text \<open>
  The callback of \<open>upgradeFrame\<close>, in its four DOM steps: \<open>$frame.after(html)\<close>,
  \<open>$frame.next('img').show()\<close>, \<open>$frame.remove()\<close>, \<open>$upgradeWrapper.empty()\<close>.
\<close>

fun is_ref :: "nat list \<Rightarrow> child \<Rightarrow> bool" where
  "is_ref refs (Img i im) = (i \<in> set refs)"
| "is_ref refs Span = False"

fun new_nodes :: "nat \<Rightarrow> img list \<Rightarrow> child list" where
  "new_nodes n [] = []"
| "new_nodes n (im # ims) = Img n im # new_nodes (Suc n) ims"

fun insert_after :: "nat list \<Rightarrow> img list \<Rightarrow> nat \<Rightarrow> child list \<Rightarrow> child list \<times> nat" where
  "insert_after refs html n [] = ([], n)"
| "insert_after refs html n (c # cs) =
     (if is_ref refs c then
        (let (rest, n') = insert_after refs html (n + length html) cs
         in (c # new_nodes n html @ rest, n'))
      else
        (let (rest, n') = insert_after refs html n cs in (c # rest, n')))"

fun show_next :: "nat list \<Rightarrow> child list \<Rightarrow> child list" where
  "show_next refs (c # d # cs) =
     c # show_next refs ((if is_ref refs c then set_visible True d else d) # cs)"
| "show_next refs cs = cs"

definition upgradeLoaded :: "jsnum \<Rightarrow> state \<Rightarrow> outcome" where
  "upgradeLoaded frame s =
     (case upgradeWrapper s of
        None \<Rightarrow> Thrown TypeError s
      | Some html \<Rightarrow>
          (let (d1, n1) = insert_after (frame_ref s) html (next_id s) (dom s);
               d2 = show_next (frame_ref s) d1;
               d3 = filter (\<lambda>c. \<not> is_ref (frame_ref s) c) d2
           in Done (markBigAsPreloaded frame
                      (s\<lparr>dom := d3, next_id := n1, upgradeWrapper := Some []\<rparr>))))"

section \<open>Scrolling\<close>

definition animate :: "env \<Rightarrow> state \<Rightarrow> state" where
  "animate e s =
     (if animating s then
        (let cur = calculateCurrent (numImages (settings s)) e;
             s1 = (if \<not> js_eq cur (currentImg s)
                   then showFrameWhenReady cur (s\<lparr>currentImg := cur\<rparr>)
                   else s\<lparr>animating := False\<rparr>)
         in s1\<lparr>pending := pending s1 @ [AnimateTick]\<rparr>)
      else s)"

definition scroll :: "env \<Rightarrow> state \<Rightarrow> state" where
  "scroll e s =
     (let s1 = (if \<not> animating s then animate e (s\<lparr>animating := True\<rparr>) else s);
          s2 = s1\<lparr>lastCurrentImg := currentImg s1\<rparr>
      in s2\<lparr>pending := filter (\<lambda>c. c \<noteq> CheckForScrollTimer) (pending s2) @
                         [CheckForScrollTimer]\<rparr>)"

definition checkForScroll :: "state \<Rightarrow> outcome" where
  "checkForScroll s =
     (if js_eq (lastCurrentImg s) (currentImg s) then
        (let s1 = s\<lparr>animating := False\<rparr>
         in if upgradeHighRes (settings s1) then
              (case upgradeFrame (currentImg s1) s1 of
                 Done s2 \<Rightarrow> Done (preload s2)
               | Thrown err s2 \<Rightarrow> Thrown err s2)
            else Done (preload s1))
      else Done s)"

section \<open>Initialisation\<close>

text \<open>
  The object handed to \<open>init\<close>. An attribute that is not supplied is \<open>None\<close>; the two
  callbacks are \<open>Some True\<close> when a function is supplied.
\<close>

record options =
  o_numImages :: "int option"
  o_imgDir :: "string option"
  o_imgName :: "string option"
  o_imgFormat :: "string option"
  o_upgradeHighRes :: "bool option"
  o_imgDirBig :: "string option"
  o_buffer :: "int option"
  o_preload :: "bool option"
  o_requestAnimationFramePolyfill :: "bool option"
  o_onPreloaded :: "bool option"
  o_onShowFrame :: "bool option"

text \<open>
  The loop over \<open>required\<close>: the test is \<open>!options[required[i]]\<close>, which also rejects
  the number \<open>0\<close> and the empty string. It yields the name of the first attribute
  rejected, or the three values.
\<close>

definition check_required :: "options \<Rightarrow> string + (int \<times> string \<times> string)" where
  "check_required opts =
     (case o_numImages opts of
        None \<Rightarrow> Inl ''numImages''
      | Some n \<Rightarrow>
          if n = 0 then Inl ''numImages''
          else (case o_imgDir opts of
                  None \<Rightarrow> Inl ''imgDir''
                | Some d \<Rightarrow>
                    if d = [] then Inl ''imgDir''
                    else (case o_imgName opts of
                            None \<Rightarrow> Inl ''imgName''
                          | Some m \<Rightarrow> if m = [] then Inl ''imgName'' else Inr (n, d, m))))"

definition or_default :: "'a option \<Rightarrow> 'a \<Rightarrow> 'a" where
  "or_default v d = (case v of None \<Rightarrow> d | Some x \<Rightarrow> x)"

text \<open>\<open>$.extend(defaults, options)\<close>: it writes into \<open>defaults\<close> and returns that object.\<close>

definition extend :: "optional_settings \<Rightarrow> options \<Rightarrow> optional_settings" where
  "extend d opts =
     \<lparr>imgFormat = or_default (o_imgFormat opts) (imgFormat d),
      upgradeHighRes = or_default (o_upgradeHighRes opts) (upgradeHighRes d),
      imgDirBig = or_default (o_imgDirBig opts) (imgDirBig d),
      buffer = or_default (o_buffer opts) (buffer d),
      preload_opt = or_default (o_preload opts) (preload_opt d),
      requestAnimationFramePolyfill =
        or_default (o_requestAnimationFramePolyfill opts) (requestAnimationFramePolyfill d),
      onPreloaded = or_default (o_onPreloaded opts) (onPreloaded d),
      onShowFrame = or_default (o_onShowFrame opts) (onShowFrame d)\<rparr>"

text \<open>
  The part of \<open>init\<close> after the checks, in three pieces. First the settings, the
  length to zerofill to, and the current frame. The polyfill of
  \<open>requestAnimationFrame\<close> changes the \<open>window\<close> object only and is left out.
\<close>

definition configure :: "options \<Rightarrow> int \<times> string \<times> string \<Rightarrow> env \<Rightarrow> state \<Rightarrow> state" where
  "configure opts req e s =
     (let (n, d, m) = req;
          ext = extend (defaults s) opts;
          s1 = s\<lparr>settings := optional_settings.extend ext (settings.fields n d m),
                 defaults := ext\<rparr>;
          s2 = s1\<lparr>imgStrLen := int (length (js_String (Num (numImages (settings s1)))))\<rparr>
      in s2\<lparr>currentImg := calculateCurrent (numImages (settings s2)) e\<rparr>)"

text \<open>
  Then \<open>$this.append('<span id="upgradeWrapper" />')\<close> and
  \<open>$upgradeWrapper = $('#upgradeWrapper')\<close>, which selects a wrapper that exists
  already, with what it holds.
\<close>

definition make_wrapper :: "state \<Rightarrow> state" where
  "make_wrapper s =
     s\<lparr>dom := dom s @ [Span],
       upgradeWrapper := (case upgradeWrapper s of None \<Rightarrow> Some [] | Some w \<Rightarrow> Some w)\<rparr>"

definition init_setup :: "options \<Rightarrow> int \<times> string \<times> string \<Rightarrow> env \<Rightarrow> state \<Rightarrow> outcome" where
  "init_setup opts req e s =
     (let s3 = configure opts req e s;
          s4 = showFrameWhenReady (currentImg s3) s3;
          r5 = (if o_upgradeHighRes opts = Some True
                then upgradeFrame (currentImg s4) (make_wrapper s4)
                else Done s4)
      in case r5 of
           Thrown err s5 \<Rightarrow> Thrown err s5
         | Done s5 \<Rightarrow>
             (let s6 = (if preload_opt (settings s5) then preload s5 else s5)
              in Done (s6\<lparr>scroll_handlers := Suc (scroll_handlers s6)\<rparr>)))"

text \<open>
  \<open>init\<close>, applied to the host element \<open>h\<close> whose children are \<open>kids\<close>. The first
  statement after the log is \<open>$this = this\<close>. \<open>options = None\<close> stands for an argument
  that is not an object (the plugin passes \<open>undefined\<close> on when it is called without
  arguments).
\<close>

definition init :: "nat \<Rightarrow> child list \<Rightarrow> options option \<Rightarrow> env \<Rightarrow> state \<Rightarrow> outcome" where
  "init h kids options e s =
     (let s0 = s\<lparr>this_host := Some h, dom := kids\<rparr>
      in case options of
           None \<Rightarrow> Thrown RequiredSettingsNotSupplied s0
         | Some opts \<Rightarrow>
             (case check_required opts of
                Inl name \<Rightarrow> Thrown (RequiredSettingNotSupplied name) s0
              | Inr req \<Rightarrow>
                  if o_upgradeHighRes opts = Some True \<and>
                     (o_imgDirBig opts = None \<or> o_imgDirBig opts = Some [])
                  then Thrown NoImgDirBigSupplied s0
                  else if \<not> imagesLoaded_available e then Thrown ImagesLoadedNotFound s0
                  else init_setup opts req e s0))"

section \<open>The module before \<open>init\<close>, and sequences of operations\<close>

text \<open>
  The initial values of the closure's variables. \<open>settings\<close> starts as the empty object
  and gets its first meaningful value from \<open>init\<close>; the value \<open>st\<close> stands for it.
\<close>

definition module_start :: "settings \<Rightarrow> state" where
  "module_start st =
     \<lparr>settings = st,
      defaults = \<lparr>imgFormat = ''.jpg'', upgradeHighRes = False, imgDirBig = [], buffer = 10,
                  preload_opt = False, requestAnimationFramePolyfill = True,
                  onPreloaded = False, onShowFrame = False\<rparr>,
      currentImg = Num 1, imgStrLen = 1, animating = False, buffering = False,
      this_host = None, dom = [], preloaded = [], allPreloaded = False, preloadedBig = [],
      lastCurrentImg = Num 1, frame_ref = [], upgradeWrapper = None, next_id = 0,
      pending = [], fetched = [], onPreloaded_calls = 0, onShowFrame_calls = [],
      scroll_handlers = 0\<rparr>"

fun state_of :: "outcome \<Rightarrow> state" where
  "state_of (Done s) = s"
| "state_of (Thrown err s) = s"

text \<open>
  The operations of the plugin on integer frame numbers, as calls of the two public
  methods, as events of the page, and as the internal helpers called on their own.
\<close>

datatype op =
    OpScroll env
  | OpAnimate env
  | OpCheckForScroll
  | OpShowFrameWhenReady int
  | OpShowFrame int
  | OpBufferFromFrame int
  | OpUpgradeFrame int
  | OpUpgradeLoaded int
  | OpPreload
  | OpPreloadNext nat
  | OpOnImagePreloaded int nat
  | OpMarkAsPreloaded int
  | OpMarkBigAsPreloaded int

fun apply_op :: "op \<Rightarrow> state \<Rightarrow> state" where
  "apply_op (OpScroll e) s = scroll e s"
| "apply_op (OpAnimate e) s = animate e s"
| "apply_op OpCheckForScroll s = state_of (checkForScroll s)"
| "apply_op (OpShowFrameWhenReady f) s = showFrameWhenReady (Num f) s"
| "apply_op (OpShowFrame f) s = showFrame (Num f) s"
| "apply_op (OpBufferFromFrame f) s = bufferFromFrame (Num f) s"
| "apply_op (OpUpgradeFrame f) s = state_of (upgradeFrame (Num f) s)"
| "apply_op (OpUpgradeLoaded f) s = state_of (upgradeLoaded (Num f) s)"
| "apply_op OpPreload s = preload s"
| "apply_op (OpPreloadNext type) s = preloadNext type s"
| "apply_op (OpOnImagePreloaded f type) s = onImagePreloaded (Num f) type s"
| "apply_op (OpMarkAsPreloaded f) s = markAsPreloaded (Num f) s"
| "apply_op (OpMarkBigAsPreloaded f) s = markBigAsPreloaded (Num f) s"

definition run :: "op list \<Rightarrow> state \<Rightarrow> state" where
  "run ops s = fold apply_op ops s"

section \<open>Auxiliary notions for the properties\<close>

text \<open>Two states with the same settings and the same \<open>imgStrLen\<close>.\<close>

definition same_config :: "state \<Rightarrow> state \<Rightarrow> bool" where
  "same_config s s' = (settings s' = settings s \<and> imgStrLen s' = imgStrLen s)"

fun is_done :: "outcome \<Rightarrow> bool" where
  "is_done (Done s) = True"
| "is_done (Thrown err s) = False"

text \<open>A concrete page and configuration, used to instantiate the properties.\<close>

definition blank_settings :: settings where
  "blank_settings =
     \<lparr>imgFormat = [], upgradeHighRes = False, imgDirBig = [], buffer = 0,
      preload_opt = False, requestAnimationFramePolyfill = False,
      onPreloaded = False, onShowFrame = False, numImages = 0, imgDir = [], imgName = []\<rparr>"

definition example_options :: options where
  "example_options =
     \<lparr>o_numImages = Some 100, o_imgDir = Some ''img/'', o_imgName = Some ''f-'',
      o_imgFormat = None, o_upgradeHighRes = Some True, o_imgDirBig = Some ''big/'',
      o_buffer = Some 2, o_preload = None, o_requestAnimationFramePolyfill = None,
      o_onPreloaded = None, o_onShowFrame = None\<rparr>"

definition page :: "rat \<Rightarrow> rat \<Rightarrow> rat \<Rightarrow> env" where
  "page y dh wh = \<lparr>scrollTop = y, documentHeight = dh, windowHeight = wh,
                   imagesLoaded_available = True\<rparr>"

definition example_init :: outcome where
  "example_init = init 0 [] (Some example_options) (page 0 1600 600) (module_start blank_settings)"

text \<open>\<open>init\<close> on a page whose document is exactly as high as the window.\<close>

definition unscrollable_init :: outcome where
  "unscrollable_init = init 0 [] (Some example_options) (page 0 600 600) (module_start blank_settings)"

text \<open>
  The configurations \<open>init\<close> refuses: no object at all; one of \<open>numImages\<close>, \<open>imgDir\<close>,
  \<open>imgName\<close> not supplied, or supplied as \<open>0\<close> or as the empty string;
  \<open>upgradeHighRes\<close> true with \<open>imgDirBig\<close> not supplied or empty; no \<open>imagesLoaded\<close>
  plugin.
\<close>

definition rejected :: "options option \<Rightarrow> env \<Rightarrow> bool" where
  "rejected options e =
     (case options of
        None \<Rightarrow> True
      | Some opts \<Rightarrow>
          o_numImages opts = None \<or> o_numImages opts = Some 0 \<or>
          o_imgDir opts = None \<or> o_imgDir opts = Some [] \<or>
          o_imgName opts = None \<or> o_imgName opts = Some [] \<or>
          (o_upgradeHighRes opts = Some True \<and>
             (o_imgDirBig opts = None \<or> o_imgDirBig opts = Some [])) \<or>
          \<not> imagesLoaded_available e)"

text \<open>The example configuration for frames named \<open>001.jpg\<close>, \<open>002.jpg\<close>, ...: an empty prefix.\<close>

definition empty_name_options :: options where
  "empty_name_options = example_options\<lparr>o_imgName := Some []\<rparr>"

text \<open>What \<open>preload\<close> and its helpers leave alone: everything but the two arrays of
  preloaded frames, the flag \<open>allPreloaded\<close>, and the requests and callbacks they issue.\<close>

definition preload_only :: "state \<Rightarrow> state \<Rightarrow> bool" where
  "preload_only s s' =
     (settings s' = settings s \<and> defaults s' = defaults s \<and> currentImg s' = currentImg s \<and>
      imgStrLen s' = imgStrLen s \<and> animating s' = animating s \<and> buffering s' = buffering s \<and>
      this_host s' = this_host s \<and> dom s' = dom s \<and> lastCurrentImg s' = lastCurrentImg s \<and>
      frame_ref s' = frame_ref s \<and> upgradeWrapper s' = upgradeWrapper s \<and>
      next_id s' = next_id s \<and> onShowFrame_calls s' = onShowFrame_calls s \<and>
      scroll_handlers s' = scroll_handlers s)"

text \<open>
  Four states of the example: right after \<open>init\<close> on the scrollable page (the frame has
  not changed since the last scroll event); the same with a different frame recorded
  at the last scroll event; the same with the upgrade switched off; and the state after
  frame 1 was shown and its high-resolution image has arrived.
\<close>

definition settled_state :: state where
  "settled_state = state_of example_init"

definition moving_state :: state where
  "moving_state = settled_state\<lparr>lastCurrentImg := Num 2\<rparr>"

definition plain_state :: state where
  "plain_state = settled_state\<lparr>settings := (settings settled_state)\<lparr>upgradeHighRes := False\<rparr>\<rparr>"

definition upgraded_state :: state where
  "upgraded_state = state_of (upgradeLoaded (Num 1) (showFrame (Num 1) settled_state))"

text \<open>
  The frame indices in an array of preloaded frames; a request of \<open>preloadNext\<close> by its
  type and frame; and whether the frame of a request is in the array of its type.
\<close>

fun frame_indices :: "jsnum list \<Rightarrow> int list" where
  "frame_indices [] = []"
| "frame_indices (Num k # xs) = k # frame_indices xs"
| "frame_indices (x # xs) = frame_indices xs"

definition marked :: "state \<Rightarrow> nat \<times> int \<Rightarrow> bool" where
  "marked s k = (fst k = 1 \<and> js_mem (Num (snd k)) (preloaded s) \<or>
                 fst k = 2 \<and> js_mem (Num (snd k)) (preloadedBig s))"

definition fetch_key :: "nat \<times> int \<times> string \<Rightarrow> nat \<times> int" where
  "fetch_key x = (fst x, fst (snd x))"

text \<open>
  How the preload bookkeeping moves from a state to a later one: members of the two
  arrays stay members, arrays without a duplicate frame index stay so, and the requests
  are extended by new ones, pairwise different in type and frame, each for a frame that
  was not in the array of its type before and is in it afterwards.
\<close>

definition marking :: "state \<Rightarrow> state \<Rightarrow> bool" where
  "marking s s' =
     ((\<forall>x. js_mem x (preloaded s) \<longrightarrow> js_mem x (preloaded s')) \<and>
      (\<forall>x. js_mem x (preloadedBig s) \<longrightarrow> js_mem x (preloadedBig s')) \<and>
      (distinct (frame_indices (preloaded s)) \<longrightarrow> distinct (frame_indices (preloaded s'))) \<and>
      (distinct (frame_indices (preloadedBig s)) \<longrightarrow> distinct (frame_indices (preloadedBig s'))) \<and>
      (\<exists>new. fetched s' = fetched s @ new \<and> distinct (map fetch_key new) \<and>
             (\<forall>x \<in> set new. \<not> marked s (fetch_key x) \<and> marked s' (fetch_key x))))"

text \<open>The example after the image of frame 1 has loaded and the frame is shown.\<close>

definition shown_state :: state where
  "shown_state = showFrame (Num 1) settled_state"

text \<open>The frame tags of the attached images, in document order; a hidden image; the
  images that are displayed.\<close>

definition tags :: "child list \<Rightarrow> jsnum list" where
  "tags cs = map (\<lambda>(i, im). tag im) (imgs cs)"

definition hidden_img :: "child \<Rightarrow> bool" where
  "hidden_img c = (case c of Img i im \<Rightarrow> \<not> visible im | Span \<Rightarrow> False)"

definition visible_imgs :: "child list \<Rightarrow> (nat \<times> img) list" where
  "visible_imgs cs = filter (\<lambda>(i, im). visible im) (imgs cs)"

text \<open>
  The example of the specification: 100 frames, a buffer of 10, no upgrade, and the page
  scrolled so that \<open>init\<close> computes frame 50.
\<close>

definition hundred_options :: options where
  "hundred_options = example_options\<lparr>o_buffer := Some 10, o_upgradeHighRes := None\<rparr>"

definition frame50_state :: state where
  "frame50_state =
     state_of (init 0 [] (Some hundred_options) (page 495 1600 600) (module_start blank_settings))"

text \<open>
  A session of the example with the upgrade on: frame 1 is shown and upgraded; the user
  scrolls to frame 2 and stops, so the upgrade of frame 2 is staged; before its image
  has loaded the user scrolls back to frame 1 and stops, where \<open>upgradeFrame\<close> finds
  frame 1 upgraded already; then the staged image of frame 2 finishes loading.
\<close>

definition race_ops :: "op list" where
  "race_ops =
     [OpShowFrame 1, OpUpgradeLoaded 1,
      OpScroll (page 15 1600 600), OpAnimate (page 15 1600 600), OpCheckForScroll,
      OpScroll (page 5 1600 600), OpAnimate (page 5 1600 600), OpCheckForScroll,
      OpUpgradeLoaded 2]"

text \<open>What buffering leaves alone, and the children after the two visibility steps of
  \<open>showFrame\<close>.\<close>

definition buffer_only :: "state \<Rightarrow> state \<Rightarrow> bool" where
  "buffer_only s s' =
     (settings s' = settings s \<and> defaults s' = defaults s \<and> currentImg s' = currentImg s \<and>
      imgStrLen s' = imgStrLen s \<and> animating s' = animating s \<and>
      this_host s' = this_host s \<and> lastCurrentImg s' = lastCurrentImg s \<and>
      frame_ref s' = frame_ref s \<and> upgradeWrapper s' = upgradeWrapper s \<and>
      onShowFrame_calls s' = onShowFrame_calls s \<and> scroll_handlers s' = scroll_handlers s)"

definition shown :: "jsnum \<Rightarrow> child list \<Rightarrow> child list" where
  "shown f cs = map (\<lambda>c. if has_tag f c then set_visible True c else c) (map (set_visible False) cs)"

text \<open>Once the wrapper element exists it stays.\<close>

definition wrapper_kept :: "state \<Rightarrow> state \<Rightarrow> bool" where
  "wrapper_kept s s' = (upgradeWrapper s \<noteq> None \<longrightarrow> upgradeWrapper s' \<noteq> None)"

section \<open>Properties\<close>

subsection \<open>Zerofill and configuration\<close>

lemma zerofill_loop_eq:
  "zerofill_loop numStr len = replicate (nat (len - int (length numStr))) (CHR ''0'') @ numStr"
proof (induction numStr len rule: zerofill_loop.induct)
  case (1 numStr len)
  show ?case
  proof (cases "int (length numStr) < len")
    case True
    then have "nat (len - int (length numStr)) = Suc (nat (len - int (length (CHR ''0'' # numStr))))"
      by simp
    with True 1 show ?thesis
      by (subst zerofill_loop.simps) (simp add: replicate_app_Cons_same)
  next
    case False
    then show ?thesis by (subst zerofill_loop.simps) simp
  qed
qed

lemma same_config_refl [simp]: "same_config s s"
  by (simp add: same_config_def)

lemma same_config_trans: "same_config s s1 \<Longrightarrow> same_config s1 s2 \<Longrightarrow> same_config s s2"
  by (simp add: same_config_def)

lemma config_markAsPreloaded [simp]: "same_config s (markAsPreloaded f s)"
  by (simp add: same_config_def markAsPreloaded_def)

lemma config_markBigAsPreloaded [simp]: "same_config s (markBigAsPreloaded f s)"
  by (simp add: same_config_def markBigAsPreloaded_def)

lemma config_onImagePreloaded [simp]: "same_config s (onImagePreloaded f t s)"
  by (simp add: same_config_def onImagePreloaded_def markAsPreloaded_def markBigAsPreloaded_def Let_def)

lemma config_preloadNext [simp]: "same_config s (preloadNext t s)"
  using config_onImagePreloaded
  by (auto simp: same_config_def preloadNext_def Let_def split: option.splits)

lemma config_preload [simp]: "same_config s (preload s)"
proof (induction s rule: preload.induct)
  case (1 s)
  show ?case
    apply (subst preload.simps)
    using 1 config_preloadNext [of s 1] config_preloadNext [of s 2]
    apply (auto simp: same_config_def)
    done
qed

lemma config_buffer_step [simp]: "same_config s (buffer_step f i s)"
  using config_markAsPreloaded
  by (auto simp: same_config_def buffer_step_def Let_def append_img_def)

lemma config_fold_buffer_step [simp]: "same_config s (fold (buffer_step f) is s)"
proof (induction "is" arbitrary: s)
  case Nil
  show ?case by simp
next
  case (Cons i "is")
  show ?case
    using same_config_trans [OF config_buffer_step Cons] by simp
qed

lemma config_bufferFromFrame [simp]: "same_config s (bufferFromFrame f s)"
proof -
  let ?s1 = "s\<lparr>dom := filter (\<lambda>c. \<not> outside_buffer s f c) (dom s)\<rparr>"
  have a: "same_config s ?s1" by (simp add: same_config_def)
  have b: "same_config ?s1 (fold (buffer_step f) js ?s1)" for js by simp
  show ?thesis
    using a b config_preload
    by (auto simp: bufferFromFrame_def Let_def same_config_def)
qed


lemma config_showFrame [simp]: "same_config s (showFrame f s)"
proof -
  have "same_config s' (bufferFromFrame f s')" for s' by simp
  then show ?thesis
    by (auto simp: showFrame_def Let_def same_config_def markAsPreloaded_def)
qed

lemma config_showFrameWhenReady [simp]: "same_config s (showFrameWhenReady f s)"
  using config_showFrame [of s f]
  by (auto simp: showFrameWhenReady_def Let_def same_config_def append_img_def)

lemma config_upgradeFrame [simp]: "same_config s (state_of (upgradeFrame f s))"
  by (auto simp: upgradeFrame_def Let_def same_config_def split: option.splits list.splits)

lemma config_upgradeLoaded [simp]: "same_config s (state_of (upgradeLoaded f s))"
  by (auto simp: upgradeLoaded_def Let_def same_config_def markBigAsPreloaded_def
           split: option.splits prod.splits)

lemma config_animate [simp]: "same_config s (animate e s)"
proof -
  have "same_config s' (showFrameWhenReady f s')" for s' f by simp
  then show ?thesis
    by (auto simp: animate_def Let_def same_config_def)
qed

lemma config_scroll [simp]: "same_config s (scroll e s)"
proof -
  have "same_config s' (animate e s')" for s' by simp
  then show ?thesis
    by (auto simp: scroll_def Let_def same_config_def)
qed

lemma config_checkForScroll [simp]: "same_config s (state_of (checkForScroll s))"
proof -
  have a: "same_config s' (state_of (upgradeFrame f s'))" for s' f by simp
  have b: "same_config s' (preload s')" for s' by simp
  show ?thesis
    using a [of "s\<lparr>animating := False\<rparr>" "currentImg s"] b
    by (auto simp: checkForScroll_def Let_def same_config_def split: outcome.splits)
qed

lemma config_apply_op [simp]: "same_config s (apply_op x s)"
  by (cases x) simp_all

lemma config_run [simp]: "same_config s (run ops s)"
  unfolding run_def
proof (induction ops arbitrary: s)
  case Nil
  show ?case by simp
next
  case (Cons x ops)
  show ?case
    using same_config_trans [OF config_apply_op Cons] by simp
qed

lemma configure_config:
  "settings (configure opts (n, d, m) e s) =
     optional_settings.extend (extend (defaults s) opts) (settings.fields n d m) \<and>
   imgStrLen (configure opts (n, d, m) e s) = int (length (js_String (Num n)))"
  by (simp add: configure_def Let_def settings.defs optional_settings.defs)

lemma init_setup_same_config:
  "same_config (configure opts req e s) (state_of (init_setup opts req e s))"
proof -
  define s3 where "s3 = configure opts req e s"
  define s4 where "s4 = showFrameWhenReady (currentImg s3) s3"
  define r5 where "r5 = (if o_upgradeHighRes opts = Some True
                then upgradeFrame (currentImg s4) (make_wrapper s4)
                else Done s4)"
  have c4: "same_config s3 s4" unfolding s4_def by simp
  have cw: "same_config s4 (make_wrapper s4)"
    by (simp add: same_config_def make_wrapper_def)
  have "same_config (make_wrapper s4) (state_of (upgradeFrame (currentImg s4) (make_wrapper s4)))"
    by simp
  with cw have c5: "same_config s4 (state_of r5)"
    by (auto simp: r5_def same_config_def)
  have c35: "same_config s3 (state_of r5)"
    using same_config_trans [OF c4 c5] .
  have unfold: "init_setup opts req e s =
    (case r5 of
           Thrown err s5 \<Rightarrow> Thrown err s5
         | Done s5 \<Rightarrow>
             (let s6 = (if preload_opt (settings s5) then preload s5 else s5)
              in Done (s6\<lparr>scroll_handlers := Suc (scroll_handlers s6)\<rparr>)))"
    unfolding init_setup_def r5_def s4_def s3_def Let_def by simp
  show ?thesis
  proof (cases r5)
    case (Done s5)
    have "same_config s5 (preload s5)" by simp
    with c35 Done show ?thesis
      unfolding unfold s3_def [symmetric] by (auto simp: same_config_def Let_def)
  next
    case (Thrown err s5)
    with c35 show ?thesis unfolding unfold s3_def [symmetric] by simp
  qed
qed

lemma init_Done_setup:
  assumes "init h kids options e s0 = Done s"
  shows "\<exists>opts n d m. options = Some opts \<and> check_required opts = Inr (n, d, m) \<and>
           init_setup opts (n, d, m) e (s0\<lparr>this_host := Some h, dom := kids\<rparr>) = Done s"
  using assms
  by (auto simp: init_def Let_def split: option.splits sum.splits if_splits)

lemma init_imgStrLen:
  assumes "init h kids options e s0 = Done s"
  shows "imgStrLen s = int (length (js_String (Num (numImages (settings s)))))"
proof -
  from init_Done_setup [OF assms] obtain opts n d m where
    st: "init_setup opts (n, d, m) e (s0\<lparr>this_host := Some h, dom := kids\<rparr>) = Done s"
    by blast
  from init_setup_same_config [of opts "(n, d, m)" e "s0\<lparr>this_host := Some h, dom := kids\<rparr>"]
    configure_config [of opts n d m e "s0\<lparr>this_host := Some h, dom := kids\<rparr>"]
  show ?thesis
    unfolding st by (simp add: same_config_def settings.defs optional_settings.defs)
qed


lemma is_done_state_of: "is_done r \<Longrightarrow> r = Done (state_of r)"
  by (cases r) simp_all

lemma zerofill_eq:
  "zerofill w num len =
     replicate (nat (or_default len w - int (length (js_String num)))) (CHR ''0'') @ js_String num"
  by (simp add: zerofill_def zerofill_loop_eq or_default_def split: option.splits)

text \<open>
  Claim C9. In every state reached from a successful \<open>init\<close>, the image generated for a
  frame \<open>f\<close> of \<open>1..numImages\<close> has the path directory, then \<open>imgName\<close>, then the
  zerofilled frame number, then \<open>imgFormat\<close>; the directory is \<open>imgDirBig\<close> for a
  high-resolution image and \<open>imgDir\<close> otherwise. Without an explicit length the frame
  number is padded with \<open>0\<close> on the left to the number of decimal digits of
  \<open>numImages\<close>; an explicit length \<open>w\<close> replaces that width; and \<open>zerofill(7, 3)\<close> is
  \<open>007\<close>.
\<close>

theorem asset_path_zerofilled:
  assumes "init h kids options e s0 = Done s1" and "s = run ops s1"
    and "1 \<le> f" and "f \<le> numImages (settings s)"
  shows "src (generateImg s (Num f) highres) =
           (if highres \<or> js_mem (Num f) (preloadedBig s)
            then imgDirBig (settings s) else imgDir (settings s)) @
           imgName (settings s) @ zerofill (imgStrLen s) (Num f) None @ imgFormat (settings s)
       \<and> zerofill (imgStrLen s) (Num f) None =
           replicate (length (dec_nat (nat (numImages (settings s)))) - length (dec_nat (nat f)))
             (CHR ''0'') @ dec_nat (nat f)
       \<and> (\<forall>w. zerofill (imgStrLen s) (Num f) (Some w) =
             replicate (nat (w - int (length (dec_nat (nat f))))) (CHR ''0'') @ dec_nat (nat f))
       \<and> zerofill (imgStrLen s) (Num 7) (Some 3) = ''007''"
proof -
  have cfg: "same_config s1 s" unfolding assms(2) by simp
  have len1: "imgStrLen s1 = int (length (js_String (Num (numImages (settings s1)))))"
    using init_imgStrLen [OF assms(1)] .
  have pos: "0 < numImages (settings s)" using assms(3,4) by simp
  have len: "imgStrLen s = int (length (dec_nat (nat (numImages (settings s)))))"
    using cfg len1 pos by (simp add: same_config_def)
  have a: "src (generateImg s (Num f) highres) =
           (if highres \<or> js_mem (Num f) (preloadedBig s)
            then imgDirBig (settings s) else imgDir (settings s)) @
           imgName (settings s) @ zerofill (imgStrLen s) (Num f) None @ imgFormat (settings s)"
    by (simp add: generateImg_def)
  have b: "zerofill (imgStrLen s) (Num f) None =
           replicate (length (dec_nat (nat (numImages (settings s)))) - length (dec_nat (nat f)))
             (CHR ''0'') @ dec_nat (nat f)"
    using assms(3) by (simp add: zerofill_eq len or_default_def nat_diff_distrib')
  have c: "zerofill (imgStrLen s) (Num f) (Some w) =
             replicate (nat (w - int (length (dec_nat (nat f))))) (CHR ''0'') @ dec_nat (nat f)" for w
    using assms(3) by (simp add: zerofill_eq or_default_def)
  have d: "zerofill (imgStrLen s) (Num 7) (Some 3) = ''007''"
    by (simp add: zerofill_def zerofill_loop.simps dec_nat.simps digit_char_def)
  from a b c d show ?thesis by blast
qed

lemma example_init_done: "is_done example_init"
  by code_simp

theorem asset_path_zerofilled_witness:
  "example_init = Done (state_of example_init) \<and> (1::int) \<le> 7 \<and>
   7 \<le> numImages (settings (run [] (state_of example_init))) \<and>
   src (generateImg (run [] (state_of example_init)) (Num 7) False) = ''img/f-007.jpg''"
proof -
  have h0: "example_init = Done (state_of example_init)"
    using is_done_state_of [OF example_init_done] .
  have h1: "init 0 [] (Some example_options) (page 0 1600 600) (module_start blank_settings) =
              Done (state_of example_init)"
    by (fold example_init_def) (rule h0)
  have h3: "(1::int) \<le> 7" by simp
  have h4: "7 \<le> numImages (settings (run [] (state_of example_init)))" by code_simp
  have m: "\<not> js_mem (Num 7) (preloadedBig (run [] (state_of example_init)))" by code_simp
  have v: "imgDir (settings (run [] (state_of example_init))) @
           imgName (settings (run [] (state_of example_init))) @
           replicate (length (dec_nat (nat (numImages (settings (run [] (state_of example_init)))))) -
                      length (dec_nat (nat 7))) (CHR ''0'') @ dec_nat (nat 7) @
           imgFormat (settings (run [] (state_of example_init))) = ''img/f-007.jpg''"
    by code_simp
  have "src (generateImg (run [] (state_of example_init)) (Num 7) False) = ''img/f-007.jpg''"
    using asset_path_zerofilled [OF h1 refl h3 h4, of False] m v by simp
  with h0 h3 h4 show ?thesis by blast
qed

subsection \<open>Frame targeting\<close>

lemma calculateCurrent_formula:
  assumes "documentHeight e \<noteq> windowHeight e"
  shows "calculateCurrent n e =
           Num (max 1 \<lceil>of_int n * scrollTop e / (documentHeight e - windowHeight e)\<rceil>)"
  using assms by (simp add: calculateCurrent_def js_div_def Let_def)

lemma calculateCurrent_top:
  assumes "documentHeight e \<noteq> windowHeight e" and "scrollTop e = 0"
  shows "calculateCurrent n e = Num 1"
  using assms by (simp add: calculateCurrent_formula)

lemma calculateCurrent_in_range:
  assumes "windowHeight e < documentHeight e" and "0 \<le> scrollTop e"
    and "scrollTop e \<le> documentHeight e - windowHeight e" and "1 \<le> n"
  shows "\<exists>k. calculateCurrent n e = Num k \<and> 1 \<le> k \<and> k \<le> n"
proof -
  let ?d = "documentHeight e - windowHeight e"
  have d: "0 < ?d" using assms(1) by simp
  have "scrollTop e / ?d \<le> 1" using d assms(3) by (simp add: divide_le_eq)
  moreover have "(0::rat) \<le> of_int n" using assms(4) by simp
  ultimately have "of_int n * (scrollTop e / ?d) \<le> of_int n * 1"
    by (rule mult_left_mono)
  then have "\<lceil>of_int n * scrollTop e / ?d\<rceil> \<le> n"
    by (simp add: ceiling_le_iff)
  with assms(1,4) show ?thesis
    by (simp add: calculateCurrent_formula)
qed

text \<open>
  Claim C3. The claim gives the frame as the maximum of 1 and the ceiling of
  \<open>numImages\<close> times the scroll fraction, for every page, with frame 1 at
  \<open>scrollTop = 0\<close>. That is what \<open>calculateCurrent_formula\<close> and \<open>calculateCurrent_top\<close>
  show whenever the document and the window differ in height. On a page whose
  document is as high as the window the division is \<open>0 / 0\<close>, and the function does not
  return frame 1 but \<open>NaN\<close>.
\<close>

theorem calculateCurrent_unscrollable_page:
  "calculateCurrent 100 (page 0 600 600) = NaN"
  by (simp add: calculateCurrent_def js_div_def page_def)

text \<open>
  Claim C1. The claim bounds the current frame by 1 and \<open>numImages\<close> for every scroll
  offset within the bounds of the document; \<open>calculateCurrent_in_range\<close> shows the
  bound on a page that can scroll. On a page that cannot, the only offset within bounds
  is 0, \<open>init\<close> succeeds, and the frame it commits to \<open>currentImg\<close> is \<open>NaN\<close>, which is
  not in the range from 1 to \<open>numImages = 100\<close>.
\<close>

theorem init_unscrollable_page_commits_NaN:
  "is_done unscrollable_init \<and> currentImg (state_of unscrollable_init) = NaN \<and>
   numImages (settings (state_of unscrollable_init)) = 100"
  by code_simp

subsection \<open>Initialisation errors\<close>

lemma upgradeFrame_with_wrapper: "upgradeWrapper s \<noteq> None \<Longrightarrow> is_done (upgradeFrame f s)"
  by (auto simp: upgradeFrame_def Let_def split: option.splits list.splits)

lemma init_setup_done: "is_done (init_setup opts req e s)"
proof -
  define s4 where
    "s4 = showFrameWhenReady (currentImg (configure opts req e s)) (configure opts req e s)"
  define r5 where "r5 = (if o_upgradeHighRes opts = Some True
                then upgradeFrame (currentImg s4) (make_wrapper s4)
                else Done s4)"
  have "is_done (upgradeFrame (currentImg s4) (make_wrapper s4))"
    by (rule upgradeFrame_with_wrapper) (simp add: make_wrapper_def split: option.splits)
  then have d: "is_done r5" by (simp add: r5_def)
  have "init_setup opts req e s =
    (case r5 of
           Thrown err s5 \<Rightarrow> Thrown err s5
         | Done s5 \<Rightarrow>
             (let s6 = (if preload_opt (settings s5) then preload s5 else s5)
              in Done (s6\<lparr>scroll_handlers := Suc (scroll_handlers s6)\<rparr>)))"
    unfolding init_setup_def r5_def s4_def Let_def by simp
  with d show ?thesis by (cases r5) (simp_all add: Let_def)
qed

lemma check_required_Inl:
  "(\<exists>name. check_required opts = Inl name) \<longleftrightarrow>
     (o_numImages opts = None \<or> o_numImages opts = Some 0 \<or>
      o_imgDir opts = None \<or> o_imgDir opts = Some [] \<or>
      o_imgName opts = None \<or> o_imgName opts = Some [])"
  by (auto simp: check_required_def split: option.splits)

text \<open>
  Claim C4, amended. \<open>init\<close> throws exactly for the refused configurations: the argument
  is not an object, or one of \<open>numImages\<close>, \<open>imgDir\<close>, \<open>imgName\<close> is absent or falsy (the
  number 0, the empty string), or \<open>upgradeHighRes\<close> is true and \<open>imgDirBig\<close> is absent or
  empty, or the \<open>imagesLoaded\<close> plugin is missing. Every throw comes before any setup:
  of the module state only \<open>$this\<close> has changed, which is bound to the host element
  before the checks.
\<close>

theorem init_throws_iff:
  "((\<exists>err s'. init h kids options e s = Thrown err s') \<longleftrightarrow> rejected options e) \<and>
   (\<forall>err s'. init h kids options e s = Thrown err s' \<longrightarrow>
      s' = s\<lparr>this_host := Some h, dom := kids\<rparr>)"
proof -
  have nt: "init_setup opts req e s0 \<noteq> Thrown err s'" for opts req s0 err s'
    using init_setup_done [of opts req e s0] by (cases "init_setup opts req e s0") auto
  have a: "(\<exists>err s'. init h kids options e s = Thrown err s') \<longleftrightarrow> rejected options e"
  proof (cases options)
    case None
    then show ?thesis by (simp add: init_def rejected_def)
  next
    case (Some opts)
    show ?thesis
    proof (cases "check_required opts")
      case (Inl name)
      with check_required_Inl [of opts] have "rejected options e"
        unfolding Some rejected_def by auto
      with Inl Some show ?thesis by (simp add: init_def)
    next
      case (Inr req)
      with check_required_Inl [of opts] have
        ok: "o_numImages opts \<noteq> None" "o_numImages opts \<noteq> Some 0"
          "o_imgDir opts \<noteq> None" "o_imgDir opts \<noteq> Some []"
          "o_imgName opts \<noteq> None" "o_imgName opts \<noteq> Some []" by auto
      let ?s0 = "s\<lparr>this_host := Some h, dom := kids\<rparr>"
      have eq: "init h kids options e s =
                  (if o_upgradeHighRes opts = Some True \<and>
                     (o_imgDirBig opts = None \<or> o_imgDirBig opts = Some [])
                  then Thrown NoImgDirBigSupplied ?s0
                  else if \<not> imagesLoaded_available e then Thrown ImagesLoadedNotFound ?s0
                  else init_setup opts req e ?s0)"
        using Inr Some by (simp add: init_def Let_def)
      have rj: "rejected options e \<longleftrightarrow>
                  (o_upgradeHighRes opts = Some True \<and>
                     (o_imgDirBig opts = None \<or> o_imgDirBig opts = Some [])) \<or>
                  \<not> imagesLoaded_available e"
        using ok Some by (auto simp: rejected_def)
      show ?thesis
        unfolding eq rj using nt [of opts req ?s0] by auto
    qed
  qed
  have b: "s' = s\<lparr>this_host := Some h, dom := kids\<rparr>"
    if "init h kids options e s = Thrown err s'" for err s'
    using that nt
    by (auto simp: init_def Let_def split: option.splits sum.splits if_splits)
  from a b show ?thesis by blast
qed

theorem init_throws_iff_witness:
  "rejected (Some empty_name_options) (page 0 1600 600) \<and>
   (\<exists>err. init 0 [] (Some empty_name_options) (page 0 1600 600) (module_start blank_settings) =
      Thrown err ((module_start blank_settings)\<lparr>this_host := Some 0, dom := []\<rparr>))"
proof -
  have r: "rejected (Some empty_name_options) (page 0 1600 600)"
    by (simp add: rejected_def empty_name_options_def example_options_def)
  from init_throws_iff [of 0 "[]" "Some empty_name_options" "page 0 1600 600" "module_start blank_settings"] r
  show ?thesis by blast
qed

text \<open>
  Claim C4 as stated fails: with every required attribute supplied, \<open>imgDirBig\<close> supplied
  and the plugin present, \<open>init\<close> still throws when \<open>imgName\<close> is the empty string, and
  the module state after the throw is not the state before it.
\<close>

theorem init_throws_on_empty_imgName:
  "init 0 [] (Some empty_name_options) (page 0 1600 600) (module_start blank_settings) =
     Thrown (RequiredSettingNotSupplied ''imgName'')
       ((module_start blank_settings)\<lparr>this_host := Some 0\<rparr>) \<and>
   o_numImages empty_name_options \<noteq> None \<and> o_imgDir empty_name_options \<noteq> None \<and>
   o_imgName empty_name_options \<noteq> None \<and> o_imgDirBig empty_name_options \<noteq> None \<and>
   imagesLoaded_available (page 0 1600 600) \<and>
   (module_start blank_settings)\<lparr>this_host := Some 0\<rparr> \<noteq> module_start blank_settings"
proof -
  have "this_host ((module_start blank_settings)\<lparr>this_host := Some 0\<rparr>) \<noteq>
        this_host (module_start blank_settings)"
    by (simp add: module_start_def)
  then have "(module_start blank_settings)\<lparr>this_host := Some 0\<rparr> \<noteq> module_start blank_settings"
    by metis
  then show ?thesis
    by (simp add: init_def check_required_def empty_name_options_def example_options_def
        page_def module_start_def)
qed

subsection \<open>What preloading leaves alone\<close>

lemma preload_only_refl [simp]: "preload_only s s"
  by (simp add: preload_only_def)

lemma preload_only_trans: "preload_only s s1 \<Longrightarrow> preload_only s1 s2 \<Longrightarrow> preload_only s s2"
  by (simp add: preload_only_def)

lemma only_markAsPreloaded [simp]: "preload_only s (markAsPreloaded f s)"
  by (simp add: preload_only_def markAsPreloaded_def)

lemma only_markBigAsPreloaded [simp]: "preload_only s (markBigAsPreloaded f s)"
  by (simp add: preload_only_def markBigAsPreloaded_def)

lemma only_onImagePreloaded [simp]: "preload_only s (onImagePreloaded f t s)"
proof -
  have "preload_only s' (s'\<lparr>pending := p\<rparr>)" for s' p by (simp add: preload_only_def)
  then show ?thesis
    unfolding onImagePreloaded_def Let_def
    by (auto intro: preload_only_trans [OF only_markAsPreloaded]
                    preload_only_trans [OF only_markBigAsPreloaded])
qed

lemma only_preloadNext [simp]: "preload_only s (preloadNext t s)"
proof -
  have "preload_only s' (s'\<lparr>fetched := p\<rparr>)" for s' p by (simp add: preload_only_def)
  then show ?thesis
    unfolding preloadNext_def Let_def
    by (auto split: option.splits intro: preload_only_trans [OF only_onImagePreloaded])
qed

lemma only_preload [simp]: "preload_only s (preload s)"
proof (induction s rule: preload.induct)
  case (1 s)
  let ?s1 = "s\<lparr>allPreloaded := True,
                      onPreloaded_calls :=
                        (if onPreloaded (settings s) then Suc (onPreloaded_calls s)
                         else onPreloaded_calls s)\<rparr>"
  have a: "preload_only s ?s1" by (simp add: preload_only_def)
  show ?case
    apply (subst preload.simps)
    using preload_only_trans [OF a] 1
    apply auto
    done
qed


subsection \<open>Settle detection\<close>

lemma upgradeFrame_already_upgraded:
  assumes "frame_imgs (dom s) f = (i, im) # rest" and "upgraded im"
  shows "upgradeFrame f s = Done (s\<lparr>frame_ref := map fst (frame_imgs (dom s) f)\<rparr>)"
  using assms by (simp add: upgradeFrame_def Let_def)

lemma upgradeFrame_Done:
  assumes "upgradeWrapper s = Some w"
  shows "\<exists>s2. upgradeFrame f s = Done s2 \<and> animating s2 = animating s"
  using assms by (auto simp: upgradeFrame_def Let_def split: list.splits)




subsection \<open>Preload bookkeeping\<close>

lemma js_mem_iff: "js_mem x xs \<longleftrightarrow> x \<noteq> NaN \<and> x \<in> set xs"
  by (auto simp: js_mem_def js_eq_def)

lemma frame_indices_append [simp]:
  "frame_indices (xs @ ys) = frame_indices xs @ frame_indices ys"
  by (induction xs rule: frame_indices.induct) simp_all

lemma set_frame_indices [simp]: "set (frame_indices xs) = {k. Num k \<in> set xs}"
  by (induction xs rule: frame_indices.induct) auto

lemma marking_same:
  "preloaded s' = preloaded s \<Longrightarrow> preloadedBig s' = preloadedBig s \<Longrightarrow>
   fetched s' = fetched s \<Longrightarrow> marking s s'"
  by (simp add: marking_def marked_def)

lemma marking_refl [simp]: "marking s s"
  by (simp add: marking_same)

lemma marked_mono: "marking s s' \<Longrightarrow> marked s k \<Longrightarrow> marked s' k"
  by (auto simp: marking_def marked_def)

lemma marking_trans:
  assumes a: "marking s s1" and b: "marking s1 s2"
  shows "marking s s2"
proof -
  from a obtain n1 where n1: "fetched s1 = fetched s @ n1" "distinct (map fetch_key n1)"
    "\<forall>x \<in> set n1. \<not> marked s (fetch_key x) \<and> marked s1 (fetch_key x)"
    unfolding marking_def by blast
  from b obtain n2 where n2: "fetched s2 = fetched s1 @ n2" "distinct (map fetch_key n2)"
    "\<forall>x \<in> set n2. \<not> marked s1 (fetch_key x) \<and> marked s2 (fetch_key x)"
    unfolding marking_def by blast
  have f: "fetched s2 = fetched s @ (n1 @ n2)" using n1(1) n2(1) by simp
  have disj: "set (map fetch_key n1) \<inter> set (map fetch_key n2) = {}"
    using n1(3) n2(3) by auto
  have d: "distinct (map fetch_key (n1 @ n2))" using n1(2) n2(2) disj by simp
  have m: "\<forall>x \<in> set (n1 @ n2). \<not> marked s (fetch_key x) \<and> marked s2 (fetch_key x)"
  proof
    fix x assume "x \<in> set (n1 @ n2)"
    then consider "x \<in> set n1" | "x \<in> set n2" by auto
    then show "\<not> marked s (fetch_key x) \<and> marked s2 (fetch_key x)"
    proof cases
      case 1
      with n1(3) marked_mono [OF b] show ?thesis by blast
    next
      case 2
      with n2(3) marked_mono [OF a] show ?thesis by blast
    qed
  qed
  have new: "\<exists>new. fetched s2 = fetched s @ new \<and> distinct (map fetch_key new) \<and>
             (\<forall>x \<in> set new. \<not> marked s (fetch_key x) \<and> marked s2 (fetch_key x))"
    using f d m by blast
  show ?thesis
    using a b new unfolding marking_def by blast
qed

lemma marking_markAsPreloaded [simp]: "marking s (markAsPreloaded f s)"
proof (cases "js_mem f (preloaded s)")
  case True
  then show ?thesis by (simp add: markAsPreloaded_def)
next
  case False
  have "distinct (frame_indices (preloaded s @ [f]))" if "distinct (frame_indices (preloaded s))"
    using that False by (cases f) (auto simp: js_mem_iff)
  with False show ?thesis
    by (auto simp: marking_def markAsPreloaded_def js_mem_iff marked_def)
qed

lemma marking_markBigAsPreloaded [simp]: "marking s (markBigAsPreloaded f s)"
proof (cases "js_mem f (preloadedBig s)")
  case True
  then show ?thesis by (simp add: markBigAsPreloaded_def)
next
  case False
  have "distinct (frame_indices (preloadedBig s @ [f]))" if "distinct (frame_indices (preloadedBig s))"
    using that False by (cases f) (auto simp: js_mem_iff)
  with False show ?thesis
    by (auto simp: marking_def markBigAsPreloaded_def js_mem_iff marked_def)
qed

lemma marking_field_update:
  "preloaded s' = preloaded s \<Longrightarrow> preloadedBig s' = preloadedBig s \<Longrightarrow>
   fetched s' = fetched s \<Longrightarrow> marking s0 s \<Longrightarrow> marking s0 s'"
  using marking_trans [OF _ marking_same] by blast

lemma marking_onImagePreloaded [simp]: "marking s (onImagePreloaded f t s)"
proof -
  define s1 where "s1 = (if t = 1 then markAsPreloaded f s
                else if t = 2 then markBigAsPreloaded f s else s)"
  have "marking s s1" by (simp add: s1_def)
  then have "marking s (s1\<lparr>pending := pending s1 @ [PreloadTimer]\<rparr>)"
    by (rule marking_field_update [rotated -1]) simp_all
  then show ?thesis by (simp add: onImagePreloaded_def s1_def Let_def)
qed

lemma onImagePreloaded_marks:
  "t = 1 \<or> t = 2 \<Longrightarrow> marked (onImagePreloaded (Num i) t s) (t, i)"
  by (auto simp: onImagePreloaded_def markAsPreloaded_def markBigAsPreloaded_def marked_def
                 js_mem_iff Let_def)

lemma onImagePreloaded_fetched [simp]: "fetched (onImagePreloaded f t s) = fetched s"
  by (simp add: onImagePreloaded_def markAsPreloaded_def markBigAsPreloaded_def Let_def)

lemma marking_preloadNext [simp]: "marking s (preloadNext t s)"
proof (cases "\<not> animating s \<and> \<not> buffering s")
  case False
  then show ?thesis by (auto simp: preloadNext_def)
next
  case idle: True
  let ?P = "\<lambda>i. t = 1 \<and> \<not> js_mem (Num i) (preloaded s) \<or>
                   t = 2 \<and> \<not> js_mem (Num i) (preloadedBig s)"
  show ?thesis
  proof (cases "find ?P [1 .. numImages (settings s)]")
    case None
    with idle show ?thesis by (simp add: preloadNext_def)
  next
    case (Some i)
    then have Pi: "?P i" by (auto simp: find_Some_iff)
    let ?s1 = "onImagePreloaded (Num i) t s"
    obtain u where res: "preloadNext t s = ?s1\<lparr>fetched := fetched ?s1 @ [(t, i, u)]\<rparr>"
      using idle Some by (simp add: preloadNext_def Let_def)
    have m1: "marking s ?s1" by simp
    have nm: "\<not> marked s (t, i)" using Pi by (auto simp: marked_def)
    have t12: "t = 1 \<or> t = 2" using Pi by auto
    have mk: "marked ?s1 (t, i)" using onImagePreloaded_marks [OF t12] .
    have "marking s (?s1\<lparr>fetched := fetched ?s1 @ [(t, i, u)]\<rparr>)"
      unfolding marking_def
    proof (intro conjI)
      show "\<exists>new. fetched (?s1\<lparr>fetched := fetched ?s1 @ [(t, i, u)]\<rparr>) = fetched s @ new \<and>
          distinct (map fetch_key new) \<and>
          (\<forall>x\<in>set new. \<not> marked s (fetch_key x) \<and>
               marked (?s1\<lparr>fetched := fetched ?s1 @ [(t, i, u)]\<rparr>) (fetch_key x))"
        using mk nm by (intro exI [of _ "[(t, i, u)]"]) (simp add: fetch_key_def marked_def)
    qed (use m1 in \<open>simp_all add: marking_def\<close>)
    then show ?thesis unfolding res .
  qed
qed


lemma marking_preload [simp]: "marking s (preload s)"
proof (induction s rule: preload.induct)
  case (1 s)
  let ?s1 = "s\<lparr>allPreloaded := True,
                      onPreloaded_calls :=
                        (if onPreloaded (settings s) then Suc (onPreloaded_calls s)
                         else onPreloaded_calls s)\<rparr>"
  have a: "marking s ?s1" by (rule marking_same) simp_all
  show ?case
    apply (subst preload.simps)
    using marking_trans [OF a] 1
    apply auto
    done
qed

lemma marking_buffer_step [simp]: "marking s (buffer_step f i s)"
proof -
  have "marking s (append_img im s)" for im
    by (rule marking_same) (simp_all add: append_img_def)
  then have "marking s (markAsPreloaded g (append_img im s))" for g im
    using marking_trans marking_markAsPreloaded by blast
  then show ?thesis by (simp add: buffer_step_def Let_def)
qed

lemma marking_fold_buffer_step [simp]: "marking s (fold (buffer_step f) js s)"
proof (induction js arbitrary: s)
  case Nil
  show ?case by simp
next
  case (Cons i js)
  show ?case
    using marking_trans [OF marking_buffer_step Cons] by simp
qed

lemma marking_bufferFromFrame [simp]: "marking s (bufferFromFrame f s)"
proof -
  define s1 where "s1 = s\<lparr>dom := filter (\<lambda>c. \<not> outside_buffer s f c) (dom s)\<rparr>"
  define s2 where "s2 = (if int (length (imgs (dom s1))) < buffer (settings s1) * 2
                then fold (buffer_step f)
                       [- buffer (settings s1) .. buffer (settings s1) - 1] s1
                else s1)"
  have a: "marking s s1" by (rule marking_same) (simp_all add: s1_def)
  have b: "marking s1 s2" by (simp add: s2_def)
  have c: "marking s2 (s2\<lparr>buffering := False\<rparr>)" by (rule marking_same) simp_all
  have d: "marking (s2\<lparr>buffering := False\<rparr>) (preload (s2\<lparr>buffering := False\<rparr>))" by simp
  have "bufferFromFrame f s = preload (s2\<lparr>buffering := False\<rparr>)"
    by (simp add: bufferFromFrame_def s2_def s1_def Let_def)
  with marking_trans [OF marking_trans [OF marking_trans [OF a b] c] d]
  show ?thesis by simp
qed

lemma marking_showFrame [simp]: "marking s (showFrame f s)"
proof -
  define s3 where "s3 =
    (let s1 = (if onShowFrame (settings s)
                then s\<lparr>onShowFrame_calls := onShowFrame_calls s @ [(f, dom s)]\<rparr> else s);
          s2 = s1\<lparr>dom := map (set_visible False) (dom s1)\<rparr>
     in s2\<lparr>dom := map (\<lambda>c. if has_tag f c then set_visible True c else c) (dom s2)\<rparr>)"
  have a: "marking s s3" by (rule marking_same) (simp_all add: s3_def Let_def)
  have b: "marking s3 (markAsPreloaded f s3)" by simp
  have c: "marking (markAsPreloaded f s3) (bufferFromFrame f (markAsPreloaded f s3))" by simp
  have "showFrame f s = bufferFromFrame f (markAsPreloaded f s3)"
    by (simp add: showFrame_def s3_def Let_def)
  with marking_trans [OF marking_trans [OF a b] c] show ?thesis by simp
qed

lemma marking_showFrameWhenReady [simp]: "marking s (showFrameWhenReady f s)"
proof (cases "frame_imgs (dom s) f = []")
  case True
  have "marking s (showFrameWhenReady f s)"
    by (rule marking_same) (simp_all add: showFrameWhenReady_def True Let_def append_img_def)
  then show ?thesis .
next
  case False
  then show ?thesis by (simp add: showFrameWhenReady_def)
qed

lemma marking_upgradeFrame [simp]: "marking s (state_of (upgradeFrame f s))"
  by (rule marking_same)
     (auto simp: upgradeFrame_def Let_def split: option.splits list.splits)

lemma marking_upgradeLoaded [simp]: "marking s (state_of (upgradeLoaded f s))"
proof (cases "upgradeWrapper s")
  case None
  then show ?thesis by (simp add: upgradeLoaded_def)
next
  case (Some html)
  obtain d1 n1 where ia: "insert_after (frame_ref s) html (next_id s) (dom s) = (d1, n1)"
    by (cases "insert_after (frame_ref s) html (next_id s) (dom s)") auto
  define s1 where "s1 = s\<lparr>dom := filter (\<lambda>c. \<not> is_ref (frame_ref s) c) (show_next (frame_ref s) d1),
                         next_id := n1, upgradeWrapper := Some []\<rparr>"
  have a: "marking s s1" by (rule marking_same) (simp_all add: s1_def)
  have "state_of (upgradeLoaded f s) = markBigAsPreloaded f s1"
    by (simp add: upgradeLoaded_def Some ia s1_def Let_def)
  with marking_trans [OF a marking_markBigAsPreloaded] show ?thesis by simp
qed

lemma marking_animate [simp]: "marking s (animate e s)"
proof (cases "animating s")
  case False
  then show ?thesis by (simp add: animate_def)
next
  case True
  define cur where "cur = calculateCurrent (numImages (settings s)) e"
  define s1 where "s1 = (if \<not> js_eq cur (currentImg s)
                   then showFrameWhenReady cur (s\<lparr>currentImg := cur\<rparr>)
                   else s\<lparr>animating := False\<rparr>)"
  have a: "marking s (s\<lparr>currentImg := cur\<rparr>)" by (rule marking_same) simp_all
  have b: "marking s (s\<lparr>animating := False\<rparr>)" by (rule marking_same) simp_all
  have "marking s s1"
    unfolding s1_def using marking_trans [OF a marking_showFrameWhenReady] b by simp
  then have m: "marking s (s1\<lparr>pending := pending s1 @ [AnimateTick]\<rparr>)"
    by (rule marking_field_update [rotated -1]) simp_all
  have "animate e s = s1\<lparr>pending := pending s1 @ [AnimateTick]\<rparr>"
    unfolding animate_def s1_def cur_def Let_def using True by simp
  with m show ?thesis by simp
qed

lemma marking_scroll [simp]: "marking s (scroll e s)"
proof -
  define s1 where "s1 = (if \<not> animating s then animate e (s\<lparr>animating := True\<rparr>) else s)"
  have a: "marking s (s\<lparr>animating := True\<rparr>)" by (rule marking_same) simp_all
  have "marking s s1"
    unfolding s1_def using marking_trans [OF a marking_animate] by simp
  then have m: "marking s (s1\<lparr>lastCurrentImg := currentImg s1,
      pending := filter (\<lambda>c. c \<noteq> CheckForScrollTimer) (pending s1) @ [CheckForScrollTimer]\<rparr>)"
    by (rule marking_field_update [rotated -1]) simp_all
  have "scroll e s = s1\<lparr>lastCurrentImg := currentImg s1,
      pending := filter (\<lambda>c. c \<noteq> CheckForScrollTimer) (pending s1) @ [CheckForScrollTimer]\<rparr>"
    unfolding scroll_def s1_def Let_def by simp
  with m show ?thesis by simp
qed

lemma marking_checkForScroll [simp]: "marking s (state_of (checkForScroll s))"
proof (cases "js_eq (lastCurrentImg s) (currentImg s)")
  case False
  then show ?thesis by (simp add: checkForScroll_def)
next
  case True
  let ?s1 = "s\<lparr>animating := False\<rparr>"
  have a: "marking s ?s1" by (rule marking_same) simp_all
  show ?thesis
  proof (cases "upgradeHighRes (settings s)")
    case False
    with True marking_trans [OF a marking_preload] show ?thesis
      by (simp add: checkForScroll_def Let_def)
  next
    case up: True
    have b: "marking s (state_of (upgradeFrame (currentImg s) ?s1))"
      using marking_trans [OF a marking_upgradeFrame] .
    show ?thesis
    proof (cases "upgradeFrame (currentImg s) ?s1")
      case (Done s2)
      with b have "marking s (preload s2)"
        using marking_trans [OF _ marking_preload] by simp
      with True up Done show ?thesis by (simp add: checkForScroll_def Let_def)
    next
      case (Thrown err s2)
      with b True up show ?thesis by (simp add: checkForScroll_def Let_def)
    qed
  qed
qed

lemma marking_apply_op [simp]: "marking s (apply_op x s)"
  by (cases x) simp_all

lemma marking_run [simp]: "marking s (run ops s)"
  unfolding run_def
proof (induction ops arbitrary: s)
  case Nil
  show ?case by simp
next
  case (Cons x ops)
  show ?case
    using marking_trans [OF marking_apply_op Cons] by simp
qed

lemma marking_init_setup [simp]: "marking s (state_of (init_setup opts req e s))"
proof -
  define s3 where "s3 = configure opts req e s"
  define s4 where "s4 = showFrameWhenReady (currentImg s3) s3"
  define r5 where "r5 = (if o_upgradeHighRes opts = Some True
                then upgradeFrame (currentImg s4) (make_wrapper s4)
                else Done s4)"
  have a: "marking s s3"
    by (rule marking_same) (simp_all add: s3_def configure_def Let_def split: prod.splits)
  have b: "marking s3 s4" by (simp add: s4_def)
  have w: "marking s4 (make_wrapper s4)" by (rule marking_same) (simp_all add: make_wrapper_def)
  have c: "marking s4 (state_of r5)"
    unfolding r5_def using marking_trans [OF w marking_upgradeFrame] by simp
  have s5: "marking s (state_of r5)"
    using marking_trans [OF marking_trans [OF a b] c] .
  have unfold: "init_setup opts req e s =
    (case r5 of
           Thrown err s5 \<Rightarrow> Thrown err s5
         | Done s5 \<Rightarrow>
             (let s6 = (if preload_opt (settings s5) then preload s5 else s5)
              in Done (s6\<lparr>scroll_handlers := Suc (scroll_handlers s6)\<rparr>)))"
    unfolding init_setup_def r5_def s4_def s3_def Let_def by simp
  show ?thesis
  proof (cases r5)
    case (Thrown err s5')
    with s5 show ?thesis unfolding unfold by simp
  next
    case (Done s5')
    define s6 where "s6 = (if preload_opt (settings s5') then preload s5' else s5')"
    have "marking s s6"
      unfolding s6_def using s5 Done marking_trans [OF _ marking_preload] by simp
    then have "marking s (s6\<lparr>scroll_handlers := Suc (scroll_handlers s6)\<rparr>)"
      by (rule marking_field_update [rotated -1]) simp_all
    with Done show ?thesis unfolding unfold by (simp add: s6_def Let_def)
  qed
qed

lemma marking_init [simp]: "marking s (state_of (init h kids options e s))"
proof -
  let ?s0 = "s\<lparr>this_host := Some h, dom := kids\<rparr>"
  have a: "marking s ?s0" by (rule marking_same) simp_all
  have b: "marking s (state_of (init_setup opts req e ?s0))" for opts req
    using marking_trans [OF a marking_init_setup] .
  show ?thesis
    using a b by (auto simp: init_def Let_def split: option.splits sum.splits)
qed


text \<open>
  Claim C7. Let any sequence of operations run from a state. The requests of
  \<open>preloadNext\<close> made during the run contain no low-resolution request for a frame that
  was in \<open>preloaded\<close> at the start, and no high-resolution request for a frame that was
  in \<open>preloadedBig\<close> at the start. Since \<open>preloadNext\<close> puts the frame into the array
  when it requests it, no frame is requested twice with the same type in any run that
  starts with \<open>init\<close> on the freshly loaded module.
\<close>

theorem never_fetched_twice:
  "(js_mem (Num f) (preloaded s) \<longrightarrow>
      (\<exists>new. fetched (run ops s) = fetched s @ new \<and> (\<forall>u. (1, f, u) \<notin> set new))) \<and>
   (js_mem (Num f) (preloadedBig s) \<longrightarrow>
      (\<exists>new. fetched (run ops s) = fetched s @ new \<and> (\<forall>u. (2, f, u) \<notin> set new))) \<and>
   (init h kids options e (module_start st) = Done si \<longrightarrow>
      distinct (map fetch_key (fetched (run ops si))))"
proof -
  from marking_run [of s ops] obtain new where
    new: "fetched (run ops s) = fetched s @ new"
      "\<forall>x \<in> set new. \<not> marked s (fetch_key x)"
    unfolding marking_def by blast
  have a: "\<forall>u. (1, f, u) \<notin> set new" if "js_mem (Num f) (preloaded s)"
  proof (intro allI notI)
    fix u assume "(1, f, u) \<in> set new"
    with new(2) have "\<not> marked s (fetch_key (1, f, u))" by blast
    with that show False by (simp add: marked_def fetch_key_def)
  qed
  have b: "\<forall>u. (2, f, u) \<notin> set new" if "js_mem (Num f) (preloadedBig s)"
  proof (intro allI notI)
    fix u assume "(2, f, u) \<in> set new"
    with new(2) have "\<not> marked s (fetch_key (2, f, u))" by blast
    with that show False by (simp add: marked_def fetch_key_def)
  qed
  have c: "distinct (map fetch_key (fetched (run ops si)))"
    if i: "init h kids options e (module_start st) = Done si"
  proof -
    have "marking (module_start st) (state_of (init h kids options e (module_start st)))"
      by simp
    with i have "marking (module_start st) si" by simp
    from marking_trans [OF this marking_run [of si ops]]
    obtain n where "fetched (run ops si) = fetched (module_start st) @ n"
      "distinct (map fetch_key n)"
      unfolding marking_def by blast
    then show ?thesis by (simp add: module_start_def)
  qed
  from a b c new(1) show ?thesis by blast
qed

theorem never_fetched_twice_witness:
  "js_mem (Num 1) (preloaded shown_state) \<and>
   fetched (run [OpPreloadNext 1, OpPreloadNext 1] shown_state) =
     [(1, 3, ''img/f-003.jpg''), (1, 4, ''img/f-004.jpg'')] \<and>
   (\<exists>new. fetched (run [OpPreloadNext 1, OpPreloadNext 1] shown_state) = fetched shown_state @ new \<and>
      (\<forall>u. (1, 1, u) \<notin> set new)) \<and>
   js_mem (Num 1) (preloadedBig upgraded_state) \<and>
   (\<exists>new. fetched (run [OpPreloadNext 2] upgraded_state) = fetched upgraded_state @ new \<and>
      (\<forall>u. (2, 1, u) \<notin> set new)) \<and>
   init 0 [] (Some example_options) (page 0 1600 600) (module_start blank_settings) =
     Done settled_state \<and>
   distinct (map fetch_key
     (fetched (run [OpShowFrame 1, OpPreloadNext 1, OpPreloadNext 1] settled_state)))"
proof -
  have h1: "js_mem (Num 1) (preloaded shown_state)" by code_simp
  have v1: "fetched (run [OpPreloadNext 1, OpPreloadNext 1] shown_state) =
     [(1, 3, ''img/f-003.jpg''), (1, 4, ''img/f-004.jpg'')]" by code_simp
  have h2: "js_mem (Num 1) (preloadedBig upgraded_state)" by code_simp
  have h0: "example_init = Done (state_of example_init)"
    using is_done_state_of [OF example_init_done] .
  have h3: "init 0 [] (Some example_options) (page 0 1600 600) (module_start blank_settings) =
     Done settled_state"
    unfolding settled_state_def by (fold example_init_def) (rule h0)
  from never_fetched_twice [of 1 shown_state "[OpPreloadNext 1, OpPreloadNext 1]"] h1
  have c1: "\<exists>new. fetched (run [OpPreloadNext 1, OpPreloadNext 1] shown_state) = fetched shown_state @ new \<and>
      (\<forall>u. (1, 1, u) \<notin> set new)" by blast
  from never_fetched_twice [of 1 upgraded_state "[OpPreloadNext 2]"] h2
  have c2: "\<exists>new. fetched (run [OpPreloadNext 2] upgraded_state) = fetched upgraded_state @ new \<and>
      (\<forall>u. (2, 1, u) \<notin> set new)" by blast
  from never_fetched_twice [where h = 0 and kids = "[]" and options = "Some example_options"
      and e = "page 0 1600 600" and st = blank_settings and si = settled_state
      and ops = "[OpShowFrame 1, OpPreloadNext 1, OpPreloadNext 1]"] h3
  have c3: "distinct (map fetch_key
     (fetched (run [OpShowFrame 1, OpPreloadNext 1, OpPreloadNext 1] settled_state)))" by blast
  from h1 v1 c1 h2 c2 h3 c3 show ?thesis by blast
qed



text \<open>
  \<open>NaN\<close> is not a frame index and \<open>indexOf\<close> never finds it: marking \<open>NaN\<close> (the frame
  that \<open>calculateCurrent\<close> yields on a page that cannot scroll) always appends it.
\<close>

lemma markAsPreloaded_NaN: "preloaded (markAsPreloaded NaN s) = preloaded s @ [NaN]"
  by (simp add: markAsPreloaded_def js_mem_iff)

subsection \<open>Buffer maintenance\<close>

lemma imgs_append [simp]: "imgs (xs @ ys) = imgs xs @ imgs ys"
  by (induction xs rule: imgs.induct) simp_all

lemma tags_append [simp]: "tags (xs @ ys) = tags xs @ tags ys"
  by (simp add: tags_def)

lemma tags_Nil [simp]: "tags [] = []"
  by (simp add: tags_def)

lemma tags_Img [simp]: "tags (Img i im # cs) = tag im # tags cs"
  by (simp add: tags_def)

lemma tags_Span [simp]: "tags (Span # cs) = tags cs"
  by (simp add: tags_def)

lemma frame_imgs_empty_iff: "frame_imgs cs t = [] \<longleftrightarrow> t \<notin> set (tags cs)"
  by (auto simp: frame_imgs_def tags_def filter_empty_conv)

lemma js_gt_Num [simp]: "js_gt (Num a) (Num b) \<longleftrightarrow> b < a"
  by (simp add: js_gt_def)

lemma js_le_Num [simp]: "js_le (Num a) (Num b) \<longleftrightarrow> a \<le> b"
  by (auto simp: js_le_def js_eq_def)

lemma buffer_step_skip:
  assumes "\<not> (Num (f + i) \<notin> set (tags (dom s)) \<and> 0 < f + i \<and> f + i \<le> numImages (settings s))"
  shows "buffer_step (Num f) i s = s"
  using assms by (auto simp: buffer_step_def Let_def frame_imgs_empty_iff)

lemma buffer_step_attach:
  assumes "Num (f + i) \<notin> set (tags (dom s))" and "0 < f + i" and "f + i \<le> numImages (settings s)"
  shows "\<exists>im. dom (buffer_step (Num f) i s) = dom s @ [Img (next_id s) im] \<and>
           im = generateImg s (Num (f + i)) False \<and>
           js_mem (Num (f + i)) (preloaded (buffer_step (Num f) i s))"
  using assms
  by (auto simp: buffer_step_def Let_def frame_imgs_empty_iff append_img_def markAsPreloaded_def
                 js_mem_iff)

lemma generateImg_tag [simp]: "tag (generateImg s g hr) = g"
  by (simp add: generateImg_def)

lemma generateImg_hidden [simp]: "\<not> visible (generateImg s g hr)"
  by (simp add: generateImg_def)

lemma fold_buffer_step_dom:
  "\<exists>new. dom (fold (buffer_step (Num f)) js s) = dom s @ new \<and>
         (\<forall>c \<in> set new. hidden_img c) \<and>
         distinct (tags new) \<and>
         set (tags new) =
           {Num (f + i) | i. i \<in> set js \<and> 0 < f + i \<and> f + i \<le> numImages (settings s)} -
           set (tags (dom s)) \<and>
         (\<forall>t \<in> set (tags new). js_mem t (preloaded (fold (buffer_step (Num f)) js s)))"
proof (induction js arbitrary: s)
  case Nil
  show ?case by simp
next
  case (Cons i js)
  let ?n = "numImages (settings s)"
  let ?s1 = "buffer_step (Num f) i s"
  let ?r = "fold (buffer_step (Num f)) js ?s1"
  have cfg: "numImages (settings ?s1) = ?n"
    using config_buffer_step [of s "Num f" i] by (simp add: same_config_def)
  from Cons [of ?s1] obtain new2 where
    n2: "dom ?r = dom ?s1 @ new2" "\<forall>c \<in> set new2. hidden_img c" "distinct (tags new2)"
      "set (tags new2) =
           {Num (f + k) | k. k \<in> set js \<and> 0 < f + k \<and> f + k \<le> ?n} - set (tags (dom ?s1))"
      "\<forall>t \<in> set (tags new2). js_mem t (preloaded ?r)"
    unfolding cfg by blast
  show ?case
  proof (cases "Num (f + i) \<notin> set (tags (dom s)) \<and> 0 < f + i \<and> f + i \<le> ?n")
    case False
    then have s1: "?s1 = s" by (rule buffer_step_skip)
    have "set (tags new2) =
           {Num (f + k) | k. k \<in> set (i # js) \<and> 0 < f + k \<and> f + k \<le> ?n} - set (tags (dom s))"
      using n2(4) False unfolding s1 by auto
    with n2 show ?thesis unfolding s1 fold_simps s1 by auto
  next
    case True
    from buffer_step_attach [of f i s] True obtain im where
      im: "dom ?s1 = dom s @ [Img (next_id s) im]" "im = generateImg s (Num (f + i)) False"
        "js_mem (Num (f + i)) (preloaded ?s1)"
      by blast
    let ?new = "Img (next_id s) im # new2"
    have a: "dom ?r = dom s @ ?new" using n2(1) im(1) by simp
    have b: "\<forall>c \<in> set ?new. hidden_img c"
      using n2(2) im(2) by (simp add: hidden_img_def)
    have tg: "tag im = Num (f + i)" using im(2) by simp
    have notin: "Num (f + i) \<notin> set (tags new2)"
      unfolding n2(4) im(1) using tg by simp
    have c: "distinct (tags ?new)" using n2(3) notin tg by simp
    have d: "set (tags ?new) =
           {Num (f + k) | k. k \<in> set (i # js) \<and> 0 < f + k \<and> f + k \<le> ?n} - set (tags (dom s))"
      using True unfolding tags_Img tg list.set n2(4) im(1) tags_append by auto
    have "marking ?s1 ?r" by simp
    with im(3) have "js_mem (Num (f + i)) (preloaded ?r)" unfolding marking_def by blast
    with n2(5) tg have e: "\<forall>t \<in> set (tags ?new). js_mem t (preloaded ?r)" by simp
    from a b c d e show ?thesis unfolding fold_simps by blast
  qed
qed


lemma imgs_filter_outside:
  "imgs (filter (\<lambda>c. \<not> outside_buffer s fr c) cs) =
     filter (\<lambda>(i, im). \<not> (js_lt (tag im) (js_add fr (- buffer (settings s))) \<or>
                           js_gt (tag im) (js_add fr (buffer (settings s))))) (imgs cs)"
  by (induction cs rule: imgs.induct) (simp_all add: outside_buffer_def)

lemma tags_subset_imgs: "(i, im) \<in> set (imgs cs) \<Longrightarrow> tag im \<in> set (tags cs)"
  by (force simp: tags_def)

lemma bufferFromFrame_parts:
  assumes "b = buffer (settings s)" and "n = numImages (settings s)"
    and "kept = filter (\<lambda>c. \<not> outside_buffer s (Num f) c) (dom s)"
    and "s' = bufferFromFrame (Num f) s"
  shows "(\<forall>i im g. (i, im) \<in> set (imgs (dom s)) \<and> tag im = Num g \<longrightarrow>
            ((i, im) \<in> set (imgs (dom s')) \<longleftrightarrow> f - b \<le> g \<and> g \<le> f + b) \<and>
            ((i, im) \<in> set (imgs kept) \<longleftrightarrow> f - b \<le> g \<and> g \<le> f + b)) \<and>
         (\<exists>new. dom s' = kept @ new \<and> (\<forall>c \<in> set new. hidden_img c) \<and>
            distinct (tags new) \<and> (\<forall>t \<in> set (tags new). js_mem t (preloaded s')) \<and>
            set (tags new) =
              (if int (length (imgs kept)) < 2 * b
               then {Num g | g. f - b \<le> g \<and> g < f + b \<and> 1 \<le> g \<and> g \<le> n} - set (tags kept)
               else {})) \<and>
         \<not> buffering s' \<and>
         (\<exists>s2. s' = preload s2 \<and> \<not> buffering s2 \<and> dom s2 = dom s')"
proof -
  define s1 where "s1 = s\<lparr>dom := kept\<rparr>"
  define s2 where "s2 = (if int (length (imgs (dom s1))) < buffer (settings s1) * 2
                then fold (buffer_step (Num f))
                       [- buffer (settings s1) .. buffer (settings s1) - 1] s1
                else s1)"
  have res: "s' = preload (s2\<lparr>buffering := False\<rparr>)"
    unfolding assms(4) bufferFromFrame_def s2_def s1_def assms(3) Let_def by simp
  have po: "preload_only (s2\<lparr>buffering := False\<rparr>) s'" unfolding res by simp
  have dom': "dom s' = dom s2" using po by (simp add: preload_only_def)
  have buf': "\<not> buffering s'" using po by (simp add: preload_only_def)
  have mk: "marking (s2\<lparr>buffering := False\<rparr>) s'" unfolding res by simp
  have pre_mono: "js_mem t (preloaded s')" if "js_mem t (preloaded s2)" for t
    using mk that unfolding marking_def by simp
  have s1b: "buffer (settings s1) = b" and s1n: "numImages (settings s1) = n"
    and s1d: "dom s1 = kept"
    by (simp_all add: s1_def assms(1,2))
  \<comment> \<open>the images that stay\<close>
  have kept_iff: "(i, im) \<in> set (imgs kept) \<longleftrightarrow> f - b \<le> g \<and> g \<le> f + b"
    if "(i, im) \<in> set (imgs (dom s))" "tag im = Num g" for i im g
    using that unfolding assms(3) imgs_filter_outside assms(1) by auto
  \<comment> \<open>the images that are attached\<close>
  have fill: "\<exists>new. dom s2 = kept @ new \<and> (\<forall>c \<in> set new. hidden_img c) \<and>
            distinct (tags new) \<and> (\<forall>t \<in> set (tags new). js_mem t (preloaded s2)) \<and>
            set (tags new) =
              (if int (length (imgs kept)) < 2 * b
               then {Num g | g. f - b \<le> g \<and> g < f + b \<and> 1 \<le> g \<and> g \<le> n} - set (tags kept)
               else {})"
  proof (cases "int (length (imgs kept)) < 2 * b")
    case False
    then have "s2 = s1" by (simp add: s2_def s1d s1b mult.commute)
    with False s1d show ?thesis by simp
  next
    case True
    then have s2: "s2 = fold (buffer_step (Num f)) [- b .. b - 1] s1"
      by (simp add: s2_def s1d s1b mult.commute)
    from fold_buffer_step_dom [of f "[- b .. b - 1]" s1] obtain new where
      new: "dom s2 = kept @ new" "\<forall>c \<in> set new. hidden_img c" "distinct (tags new)"
        "set (tags new) =
           {Num (f + i) | i. i \<in> set [- b .. b - 1] \<and> 0 < f + i \<and> f + i \<le> n} - set (tags kept)"
        "\<forall>t \<in> set (tags new). js_mem t (preloaded s2)"
      unfolding s2 [symmetric] s1d s1n by blast
    have "{Num (f + i) | i. i \<in> set [- b .. b - 1] \<and> 0 < f + i \<and> f + i \<le> n} =
          {Num g | g. f - b \<le> g \<and> g < f + b \<and> 1 \<le> g \<and> g \<le> n}" (is "?A = ?B")
    proof
      show "?A \<subseteq> ?B" by auto
      show "?B \<subseteq> ?A"
      proof
        fix x assume "x \<in> ?B"
        then obtain g where g: "x = Num g" "f - b \<le> g" "g < f + b" "1 \<le> g" "g \<le> n" by blast
        then have "x = Num (f + (g - f)) \<and> g - f \<in> set [- b .. b - 1] \<and>
                   0 < f + (g - f) \<and> f + (g - f) \<le> n" by simp
        then show "x \<in> ?A" by blast
      qed
    qed
    with new True show ?thesis by auto
  qed
  then obtain new where
    new: "dom s2 = kept @ new" "\<forall>c \<in> set new. hidden_img c" "distinct (tags new)"
      "\<forall>t \<in> set (tags new). js_mem t (preloaded s2)"
      "set (tags new) =
              (if int (length (imgs kept)) < 2 * b
               then {Num g | g. f - b \<le> g \<and> g < f + b \<and> 1 \<le> g \<and> g \<le> n} - set (tags kept)
               else {})"
    by blast
  have part2: "\<exists>new. dom s' = kept @ new \<and> (\<forall>c \<in> set new. hidden_img c) \<and>
            distinct (tags new) \<and> (\<forall>t \<in> set (tags new). js_mem t (preloaded s')) \<and>
            set (tags new) =
              (if int (length (imgs kept)) < 2 * b
               then {Num g | g. f - b \<le> g \<and> g < f + b \<and> 1 \<le> g \<and> g \<le> n} - set (tags kept)
               else {})"
    using new pre_mono unfolding dom' by blast
  \<comment> \<open>an image outside the range does not come back\<close>
  have new_in_range: "f - b \<le> g \<and> g \<le> f + b" if "Num g \<in> set (tags new)" for g
    using that new(5) by (auto split: if_splits)
  have part1: "((i, im) \<in> set (imgs (dom s')) \<longleftrightarrow> f - b \<le> g \<and> g \<le> f + b) \<and>
            ((i, im) \<in> set (imgs kept) \<longleftrightarrow> f - b \<le> g \<and> g \<le> f + b)"
    if h: "(i, im) \<in> set (imgs (dom s))" "tag im = Num g" for i im g
  proof -
    have "(i, im) \<in> set (imgs new) \<Longrightarrow> f - b \<le> g \<and> g \<le> f + b"
      using tags_subset_imgs [of i im new] new_in_range h(2) by simp
    with kept_iff [OF h] show ?thesis unfolding dom' new(1) by auto
  qed
  have part3: "\<exists>s2. s' = preload s2 \<and> \<not> buffering s2 \<and> dom s2 = dom s'"
    using res dom' by (intro exI [of _ "s2\<lparr>buffering := False\<rparr>"]) simp
  from part1 part2 buf' part3 show ?thesis by blast
qed

text \<open>
  Claim C5. Write \<open>b\<close> for the buffer setting and \<open>n\<close> for \<open>numImages\<close>.
  \<open>bufferFromFrame(f)\<close> first removes the attached images whose frame lies outside
  \<open>f - b .. f + b\<close>: an image attached before stays exactly when its frame is inside, and
  \<open>kept\<close> are the children that stay. If fewer than \<open>2 * b\<close> images stay, the frames
  attached anew are exactly the frames \<open>g\<close> with \<open>f - b \<le> g < f + b\<close> and
  \<open>1 \<le> g \<le> n\<close> that are not attached yet, each once, hidden, and each marked as
  preloaded; otherwise nothing is attached. At the end \<open>buffering\<close> is false and the
  result is what \<open>preload\<close> returns.
\<close>

theorem bufferFromFrame_effect:
  assumes "b = buffer (settings s)" and "n = numImages (settings s)"
    and "kept = filter (\<lambda>c. \<not> outside_buffer s (Num f) c) (dom s)"
    and "s' = bufferFromFrame (Num f) s"
  shows "(\<forall>i im g. (i, im) \<in> set (imgs (dom s)) \<and> tag im = Num g \<longrightarrow>
            ((i, im) \<in> set (imgs (dom s')) \<longleftrightarrow> f - b \<le> g \<and> g \<le> f + b) \<and>
            ((i, im) \<in> set (imgs kept) \<longleftrightarrow> f - b \<le> g \<and> g \<le> f + b)) \<and>
         (\<exists>new. dom s' = kept @ new \<and> (\<forall>c \<in> set new. hidden_img c) \<and>
            distinct (tags new) \<and> (\<forall>t \<in> set (tags new). js_mem t (preloaded s')) \<and>
            set (tags new) =
              (if int (length (imgs kept)) < 2 * b
               then {Num g | g. f - b \<le> g \<and> g < f + b \<and> 1 \<le> g \<and> g \<le> n} - set (tags kept)
               else {})) \<and>
         \<not> buffering s' \<and>
         (\<exists>s2. s' = preload s2 \<and> \<not> buffering s2 \<and> dom s2 = dom s')"
  using assms by (rule bufferFromFrame_parts)


theorem bufferFromFrame_effect_witness:
  "\<not> buffering (bufferFromFrame (Num 5) shown_state) \<and>
   tags (dom shown_state) = [Num 1, Num 2] \<and>
   filter (\<lambda>c. \<not> outside_buffer shown_state (Num 5) c) (dom shown_state) = [Span] \<and>
   (\<exists>new. dom (bufferFromFrame (Num 5) shown_state) = [Span] @ new \<and>
      distinct (tags new) \<and>
      set (tags new) = {Num g | g. 5 - 2 \<le> g \<and> g < 5 + 2 \<and> 1 \<le> g \<and> g \<le> 100})"
proof -
  have b: "2 = buffer (settings shown_state)" by code_simp
  have n: "100 = numImages (settings shown_state)" by code_simp
  have k: "[Span] = filter (\<lambda>c. \<not> outside_buffer shown_state (Num 5) c) (dom shown_state)"
    by code_simp
  have t: "tags (dom shown_state) = [Num 1, Num 2]" by code_simp
  note th = bufferFromFrame_effect [OF b n k refl]
  from th have nb: "\<not> buffering (bufferFromFrame (Num 5) shown_state)" by blast
  from th obtain new where
    new: "dom (bufferFromFrame (Num 5) shown_state) = [Span] @ new" "distinct (tags new)"
      "set (tags new) =
         (if int (length (imgs [Span])) < 2 * 2
          then {Num g | g. 5 - 2 \<le> g \<and> g < 5 + 2 \<and> 1 \<le> g \<and> g \<le> 100} - set (tags [Span])
          else {})"
    by blast
  from new(3) have "set (tags new) = {Num g | g. 5 - 2 \<le> g \<and> g < 5 + 2 \<and> 1 \<le> g \<and> g \<le> 100}"
    by simp
  with new(1,2) have "\<exists>new. dom (bufferFromFrame (Num 5) shown_state) = [Span] @ new \<and>
      distinct (tags new) \<and>
      set (tags new) = {Num g | g. 5 - 2 \<le> g \<and> g < 5 + 2 \<and> 1 \<le> g \<and> g \<le> 100}"
    by blast
  with nb t k [symmetric] show ?thesis by blast
qed

text \<open>
  Claim C2. The claim gives the attached frames at rest as all valid frames \<open>g\<close> with
  \<open>|g - f| \<le> buffer\<close>. In the example of the specification (100 frames, buffer 10,
  frame 50) that is 40 to 60. The loop of \<open>bufferFromFrame\<close> stops before
  \<open>f + buffer\<close>: after \<open>init\<close> and the display of frame 50 the attached frames are 40
  to 59, frame 60 is not attached, and another \<open>bufferFromFrame(50)\<close> changes nothing.
\<close>

theorem bufferFromFrame_misses_last_frame:
  "is_done (init 0 [] (Some hundred_options) (page 495 1600 600) (module_start blank_settings)) \<and>
   currentImg frame50_state = Num 50 \<and> numImages (settings frame50_state) = 100 \<and>
   buffer (settings frame50_state) = 10 \<and>
   tags (dom (showFrame (Num 50) frame50_state)) =
     map Num ([50] @ [40 .. 49] @ [51 .. 59]) \<and>
   Num 60 \<notin> set (tags (dom (showFrame (Num 50) frame50_state))) \<and>
   tags (dom (bufferFromFrame (Num 50) (showFrame (Num 50) frame50_state))) =
     map Num ([50] @ [40 .. 49] @ [51 .. 59])"
  by code_simp

subsection \<open>Showing a frame\<close>

lemma buffer_only_refl [simp]: "buffer_only s s"
  by (simp add: buffer_only_def)

lemma buffer_only_trans: "buffer_only s s1 \<Longrightarrow> buffer_only s1 s2 \<Longrightarrow> buffer_only s s2"
  by (simp add: buffer_only_def)

lemma preload_only_buffer_only: "preload_only s s' \<Longrightarrow> buffer_only s s'"
  by (simp add: preload_only_def buffer_only_def)

lemma buffer_only_buffer_step [simp]: "buffer_only s (buffer_step f i s)"
  by (simp add: buffer_only_def buffer_step_def Let_def markAsPreloaded_def append_img_def)

lemma fold_buffer_step_general:
  "buffer_only s (fold (buffer_step f) js s) \<and>
   (\<exists>new. dom (fold (buffer_step f) js s) = dom s @ new \<and> (\<forall>c \<in> set new. hidden_img c))"
proof (induction js arbitrary: s)
  case Nil
  show ?case by simp
next
  case (Cons i js)
  let ?s1 = "buffer_step f i s"
  have "\<exists>new1. dom ?s1 = dom s @ new1 \<and> (\<forall>c \<in> set new1. hidden_img c)"
    by (auto simp: buffer_step_def Let_def markAsPreloaded_def append_img_def hidden_img_def)
  then obtain new1 where n1: "dom ?s1 = dom s @ new1" "\<forall>c \<in> set new1. hidden_img c" by blast
  from Cons [of ?s1] obtain new2 where
    n2: "dom (fold (buffer_step f) js ?s1) = dom ?s1 @ new2" "\<forall>c \<in> set new2. hidden_img c"
    and bo: "buffer_only ?s1 (fold (buffer_step f) js ?s1)"
    by blast
  have "dom (fold (buffer_step f) (i # js) s) = dom s @ (new1 @ new2)"
    using n1(1) n2(1) by simp
  moreover have "\<forall>c \<in> set (new1 @ new2). hidden_img c" using n1(2) n2(2) by auto
  moreover have "buffer_only s (fold (buffer_step f) (i # js) s)"
    using buffer_only_trans [OF buffer_only_buffer_step bo] by simp
  ultimately show ?case by blast
qed

lemma bufferFromFrame_general:
  "buffer_only s (bufferFromFrame f s) \<and> \<not> buffering (bufferFromFrame f s) \<and>
   (\<exists>new. dom (bufferFromFrame f s) =
            filter (\<lambda>c. \<not> outside_buffer s f c) (dom s) @ new \<and>
          (\<forall>c \<in> set new. hidden_img c))"
proof -
  define s1 where "s1 = s\<lparr>dom := filter (\<lambda>c. \<not> outside_buffer s f c) (dom s)\<rparr>"
  define s2 where "s2 = (if int (length (imgs (dom s1))) < buffer (settings s1) * 2
                then fold (buffer_step f)
                       [- buffer (settings s1) .. buffer (settings s1) - 1] s1
                else s1)"
  have res: "bufferFromFrame f s = preload (s2\<lparr>buffering := False\<rparr>)"
    unfolding bufferFromFrame_def s2_def s1_def Let_def by simp
  have po: "preload_only (s2\<lparr>buffering := False\<rparr>) (bufferFromFrame f s)" unfolding res by simp
  have a: "buffer_only s s1" by (simp add: s1_def buffer_only_def)
  have b: "buffer_only s1 s2 \<and> (\<exists>new. dom s2 = dom s1 @ new \<and> (\<forall>c \<in> set new. hidden_img c))"
    unfolding s2_def using fold_buffer_step_general by simp
  have c: "buffer_only s2 (s2\<lparr>buffering := False\<rparr>)" by (simp add: buffer_only_def)
  have "buffer_only s (bufferFromFrame f s)"
    using buffer_only_trans [OF buffer_only_trans [OF buffer_only_trans [OF a conjunct1 [OF b]] c]
        preload_only_buffer_only [OF po]] .
  moreover have "\<not> buffering (bufferFromFrame f s)"
    using po by (simp add: preload_only_def)
  moreover have "\<exists>new. dom (bufferFromFrame f s) =
            filter (\<lambda>c. \<not> outside_buffer s f c) (dom s) @ new \<and> (\<forall>c \<in> set new. hidden_img c)"
    using b po by (simp add: preload_only_def s1_def)
  ultimately show ?thesis by blast
qed

lemma visible_imgs_shown:
  "visible_imgs (shown f cs) = map (\<lambda>(i, im). (i, im\<lparr>visible := True\<rparr>)) (frame_imgs cs f)"
  by (induction cs rule: imgs.induct) (simp_all add: shown_def visible_imgs_def frame_imgs_def)

lemma visible_imgs_filter:
  "length (visible_imgs (filter Q cs)) \<le> length (visible_imgs cs) \<and>
   set (visible_imgs (filter Q cs)) \<subseteq> set (visible_imgs cs)"
  by (induction cs rule: imgs.induct) (auto simp: visible_imgs_def)

lemma visible_imgs_hidden: "\<forall>c \<in> set new. hidden_img c \<Longrightarrow> visible_imgs new = []"
  by (induction new rule: imgs.induct) (auto simp: visible_imgs_def hidden_img_def)

lemma visible_imgs_append [simp]: "visible_imgs (xs @ ys) = visible_imgs xs @ visible_imgs ys"
  by (simp add: visible_imgs_def)

text \<open>
  What \<open>showFrame\<close> does to a state: the user callback, when there is one, is called
  with the frame and sees the children as they were; afterwards every displayed image
  is tagged with the frame, there are at most as many of them as there were children
  with that tag, the frame is marked as preloaded, and \<open>buffering\<close> is false.
\<close>

lemma showFrame_effect:
  "onShowFrame_calls (showFrame f s) =
     onShowFrame_calls s @ (if onShowFrame (settings s) then [(f, dom s)] else []) \<and>
   (\<forall>(i, im) \<in> set (visible_imgs (dom (showFrame f s))). tag im = f) \<and>
   length (visible_imgs (dom (showFrame f s))) \<le> length (frame_imgs (dom s) f) \<and>
   (f \<noteq> NaN \<longrightarrow> js_mem f (preloaded (showFrame f s))) \<and>
   \<not> buffering (showFrame f s) \<and> currentImg (showFrame f s) = currentImg s"
proof -
  define s1 where "s1 = (if onShowFrame (settings s)
                then s\<lparr>onShowFrame_calls := onShowFrame_calls s @ [(f, dom s)]\<rparr> else s)"
  define s3 where "s3 = s1\<lparr>dom := shown f (dom s1)\<rparr>"
  define s4 where "s4 = markAsPreloaded f s3"
  have res: "showFrame f s = bufferFromFrame f s4"
    unfolding showFrame_def s4_def s3_def s1_def shown_def Let_def by simp
  have d1: "dom s1 = dom s" by (simp add: s1_def)
  have d4: "dom s4 = shown f (dom s)" by (simp add: s4_def s3_def d1 markAsPreloaded_def)
  have c4: "onShowFrame_calls s4 =
     onShowFrame_calls s @ (if onShowFrame (settings s) then [(f, dom s)] else [])"
    by (simp add: s4_def s3_def s1_def markAsPreloaded_def)
  have cur4: "currentImg s4 = currentImg s"
    by (simp add: s4_def s3_def s1_def markAsPreloaded_def)
  have m4: "f \<noteq> NaN \<longrightarrow> js_mem f (preloaded s4)"
    by (simp add: s4_def markAsPreloaded_def js_mem_iff)
  from bufferFromFrame_general [of s4 f] obtain new where
    bo: "buffer_only s4 (showFrame f s)" and nb: "\<not> buffering (showFrame f s)"
    and dm: "dom (showFrame f s) = filter (\<lambda>c. \<not> outside_buffer s4 f c) (dom s4) @ new"
    and hid: "\<forall>c \<in> set new. hidden_img c"
    unfolding res by blast
  have vis: "visible_imgs (dom (showFrame f s)) =
               visible_imgs (filter (\<lambda>c. \<not> outside_buffer s4 f c) (shown f (dom s)))"
    unfolding dm d4 using visible_imgs_hidden [OF hid] by simp
  have a: "onShowFrame_calls (showFrame f s) =
     onShowFrame_calls s @ (if onShowFrame (settings s) then [(f, dom s)] else [])"
    using bo c4 by (simp add: buffer_only_def)
  have sub: "set (visible_imgs (dom (showFrame f s))) \<subseteq> set (visible_imgs (shown f (dom s)))"
    and len: "length (visible_imgs (dom (showFrame f s))) \<le> length (visible_imgs (shown f (dom s)))"
    unfolding vis using visible_imgs_filter by blast+
  have b: "\<forall>(i, im) \<in> set (visible_imgs (dom (showFrame f s))). tag im = f"
    using sub unfolding visible_imgs_shown by (auto simp: frame_imgs_def)
  have c: "length (visible_imgs (dom (showFrame f s))) \<le> length (frame_imgs (dom s) f)"
    using len unfolding visible_imgs_shown by simp
  have "marking s4 (showFrame f s)" unfolding res by simp
  with m4 have d: "f \<noteq> NaN \<longrightarrow> js_mem f (preloaded (showFrame f s))"
    unfolding marking_def by blast
  have e: "currentImg (showFrame f s) = currentImg s"
    using bo cur4 by (simp add: buffer_only_def)
  from a b c d nb e show ?thesis by blast
qed


text \<open>
  \<open>init\<close> and \<open>animate\<close> commit what \<open>calculateCurrent\<close> returns, which on a page that
  can scroll is a frame between 1 and \<open>numImages\<close>.
\<close>

lemma currentImg_showFrameWhenReady [simp]:
  "currentImg (showFrameWhenReady f s) = currentImg s"
  using showFrame_effect [of f s]
  by (simp add: showFrameWhenReady_def Let_def append_img_def)

lemma currentImg_upgradeFrame [simp]:
  "currentImg (state_of (upgradeFrame f s)) = currentImg s"
  by (auto simp: upgradeFrame_def Let_def split: option.splits list.splits)

lemma currentImg_preload [simp]: "currentImg (preload s) = currentImg s"
  using only_preload [of s] by (simp add: preload_only_def)

lemma currentImg_init_setup:
  "currentImg (state_of (init_setup opts (n, d, m) e s)) = calculateCurrent n e"
proof -
  define s3 where "s3 = configure opts (n, d, m) e s"
  define s4 where "s4 = showFrameWhenReady (currentImg s3) s3"
  define r5 where "r5 = (if o_upgradeHighRes opts = Some True
                then upgradeFrame (currentImg s4) (make_wrapper s4)
                else Done s4)"
  have c3: "currentImg s3 = calculateCurrent n e"
    by (simp add: s3_def configure_def Let_def settings.defs optional_settings.defs)
  have c4: "currentImg s4 = calculateCurrent n e" by (simp add: s4_def c3)
  have "currentImg (make_wrapper s4) = currentImg s4" by (simp add: make_wrapper_def)
  then have c5: "currentImg (state_of r5) = calculateCurrent n e"
    by (simp add: r5_def c4)
  have unfold: "init_setup opts (n, d, m) e s =
    (case r5 of
           Thrown err s5 \<Rightarrow> Thrown err s5
         | Done s5 \<Rightarrow>
             (let s6 = (if preload_opt (settings s5) then preload s5 else s5)
              in Done (s6\<lparr>scroll_handlers := Suc (scroll_handlers s6)\<rparr>)))"
    unfolding init_setup_def r5_def s4_def s3_def Let_def by simp
  show ?thesis
    unfolding unfold using c5 by (cases r5) (simp_all add: Let_def)
qed

lemma init_commits_calculateCurrent:
  assumes "init h kids options e s0 = Done s"
  shows "currentImg s = calculateCurrent (numImages (settings s)) e"
proof -
  from init_Done_setup [OF assms] obtain opts n d m where
    st: "init_setup opts (n, d, m) e (s0\<lparr>this_host := Some h, dom := kids\<rparr>) = Done s"
    by blast
  let ?s0 = "s0\<lparr>this_host := Some h, dom := kids\<rparr>"
  have "numImages (settings s) = n"
    using init_setup_same_config [of opts "(n, d, m)" e ?s0] configure_config [of opts n d m e ?s0]
    unfolding st by (simp add: same_config_def settings.defs optional_settings.defs)
  with currentImg_init_setup [of opts n d m e ?s0] show ?thesis
    unfolding st by simp
qed

lemma animate_commits_calculateCurrent:
  assumes "animating s"
  shows "currentImg (animate e s) = calculateCurrent (numImages (settings s)) e \<or>
         (calculateCurrent (numImages (settings s)) e = NaN \<and> currentImg s = NaN)"
  using assms by (auto simp: animate_def Let_def js_eq_def)

lemma current_frame_in_range:
  assumes "windowHeight e < documentHeight e" and "0 \<le> scrollTop e"
    and "scrollTop e \<le> documentHeight e - windowHeight e"
    and "1 \<le> numImages (settings s)"
  shows "init h kids options e s0 = Done s \<Longrightarrow>
           \<exists>k. currentImg s = Num k \<and> 1 \<le> k \<and> k \<le> numImages (settings s)"
    and "animating s \<Longrightarrow>
           \<exists>k. currentImg (animate e s) = Num k \<and> 1 \<le> k \<and>
               k \<le> numImages (settings (animate e s))"
proof -
  from calculateCurrent_in_range [OF assms] obtain k where
    k: "calculateCurrent (numImages (settings s)) e = Num k" "1 \<le> k" "k \<le> numImages (settings s)"
    by blast
  show "\<exists>k. currentImg s = Num k \<and> 1 \<le> k \<and> k \<le> numImages (settings s)"
    if "init h kids options e s0 = Done s"
    using init_commits_calculateCurrent [OF that] k by simp
  have "settings (animate e s) = settings s"
    using config_animate [of s e] by (simp add: same_config_def)
  then show "\<exists>k. currentImg (animate e s) = Num k \<and> 1 \<le> k \<and>
               k \<le> numImages (settings (animate e s))"
    if "animating s"
    using animate_commits_calculateCurrent [OF that, of e] k by auto
qed

text \<open>
  Claim C8. The claim concludes that after any \<open>showFrame\<close> at most one image is
  displayed. \<open>showFrame\<close> displays every child tagged with the frame, and the callback
  of \<open>upgradeFrame\<close> inserts the staged image next to whatever \<open>$frame\<close> points at when
  it runs. In the session \<open>race_ops\<close> that leaves two images tagged with frame 2, and
  the next \<open>showFrame(2)\<close> (here as a direct call, and as it is reached from a scroll
  event) displays both.
\<close>

theorem showFrame_two_visible:
  "map (\<lambda>(i, im). (tag im, upgraded im)) (visible_imgs (dom (showFrame (Num 2) (run race_ops settled_state)))) =
     [(Num 2, True), (Num 2, False)] \<and>
   dom (scroll (page 15 1600 600) (run race_ops settled_state)) =
     dom (showFrame (Num 2) (run race_ops settled_state))"
  by code_simp

subsection \<open>The upgrade wrapper and a completed upgrade\<close>

text \<open>
  Whenever \<open>upgradeHighRes\<close> is set in a state reached from \<open>init\<close> on the freshly
  loaded module, the wrapper element exists, so the call of \<open>upgradeFrame\<close> in
  \<open>checkForScroll\<close> does not fail.
\<close>

lemma wrapper_kept_refl [simp]: "wrapper_kept s s"
  by (simp add: wrapper_kept_def)

lemma wrapper_kept_trans: "wrapper_kept s s1 \<Longrightarrow> wrapper_kept s1 s2 \<Longrightarrow> wrapper_kept s s2"
  by (simp add: wrapper_kept_def)

lemma wrapper_kept_same: "upgradeWrapper s' = upgradeWrapper s \<Longrightarrow> wrapper_kept s s'"
  by (simp add: wrapper_kept_def)

lemma wrapper_preload [simp]: "upgradeWrapper (preload s) = upgradeWrapper s"
  using only_preload [of s] by (simp add: preload_only_def)

lemma wrapper_bufferFromFrame [simp]: "upgradeWrapper (bufferFromFrame f s) = upgradeWrapper s"
  using bufferFromFrame_general [of s f] by (simp add: buffer_only_def)

lemma wrapper_showFrame [simp]: "upgradeWrapper (showFrame f s) = upgradeWrapper s"
  by (simp add: showFrame_def Let_def markAsPreloaded_def)

lemma wrapper_showFrameWhenReady [simp]:
  "upgradeWrapper (showFrameWhenReady f s) = upgradeWrapper s"
  by (simp add: showFrameWhenReady_def Let_def append_img_def)

lemma wrapper_upgradeFrame [simp]: "wrapper_kept s (state_of (upgradeFrame f s))"
  by (auto simp: wrapper_kept_def upgradeFrame_def Let_def split: option.splits list.splits)

lemma wrapper_upgradeLoaded [simp]: "wrapper_kept s (state_of (upgradeLoaded f s))"
  by (auto simp: wrapper_kept_def upgradeLoaded_def Let_def markBigAsPreloaded_def
           split: option.splits prod.splits)

lemma wrapper_animate [simp]: "upgradeWrapper (animate e s) = upgradeWrapper s"
  by (simp add: animate_def Let_def)

lemma wrapper_scroll [simp]: "upgradeWrapper (scroll e s) = upgradeWrapper s"
  by (simp add: scroll_def Let_def)

lemma wrapper_checkForScroll [simp]: "wrapper_kept s (state_of (checkForScroll s))"
proof -
  have "wrapper_kept (s\<lparr>animating := False\<rparr>)
          (state_of (upgradeFrame (currentImg s) (s\<lparr>animating := False\<rparr>)))"
    by simp
  then show ?thesis
    by (auto simp: checkForScroll_def Let_def wrapper_kept_def split: outcome.splits)
qed

lemma wrapper_apply_op [simp]: "wrapper_kept s (apply_op x s)"
  by (cases x) (simp_all add: wrapper_kept_same markAsPreloaded_def markBigAsPreloaded_def
                              preloadNext_def onImagePreloaded_def Let_def split: option.splits)

lemma wrapper_run [simp]: "wrapper_kept s (run ops s)"
  unfolding run_def
proof (induction ops arbitrary: s)
  case Nil
  show ?case by simp
next
  case (Cons x ops)
  show ?case
    using wrapper_kept_trans [OF wrapper_apply_op Cons] by simp
qed

lemma init_creates_wrapper:
  assumes "init h kids options e (module_start st) = Done s"
    and "upgradeHighRes (settings s)"
  shows "upgradeWrapper s \<noteq> None"
proof -
  let ?s0 = "(module_start st)\<lparr>this_host := Some h, dom := kids\<rparr>"
  from init_Done_setup [OF assms(1)] obtain opts n d m where
    st: "init_setup opts (n, d, m) e ?s0 = Done s" by blast
  have "settings s = optional_settings.extend (extend (defaults ?s0) opts) (settings.fields n d m)"
    using init_setup_same_config [of opts "(n, d, m)" e ?s0] configure_config [of opts n d m e ?s0]
    unfolding st by (simp add: same_config_def)
  with assms(2) have up: "o_upgradeHighRes opts = Some True"
    by (auto simp: extend_def or_default_def module_start_def settings.defs
          optional_settings.defs split: option.splits)
  define s3 where "s3 = configure opts (n, d, m) e ?s0"
  define s4 where "s4 = showFrameWhenReady (currentImg s3) s3"
  define r5 where "r5 = upgradeFrame (currentImg s4) (make_wrapper s4)"
  have w: "upgradeWrapper (make_wrapper s4) \<noteq> None"
    by (simp add: make_wrapper_def split: option.splits)
  have "wrapper_kept (make_wrapper s4) (state_of r5)" unfolding r5_def by simp
  with w have w5: "upgradeWrapper (state_of r5) \<noteq> None" by (simp add: wrapper_kept_def)
  have unfold: "init_setup opts (n, d, m) e ?s0 =
    (case r5 of
           Thrown err s5 \<Rightarrow> Thrown err s5
         | Done s5 \<Rightarrow>
             (let s6 = (if preload_opt (settings s5) then preload s5 else s5)
              in Done (s6\<lparr>scroll_handlers := Suc (scroll_handlers s6)\<rparr>)))"
    unfolding init_setup_def r5_def s4_def s3_def Let_def using up by simp
  show ?thesis
    using st w5 unfolding unfold by (cases r5) (auto simp: Let_def)
qed

lemma wrapper_exists:
  assumes "init h kids options e (module_start st) = Done s"
    and "upgradeHighRes (settings (run ops s))"
  shows "upgradeWrapper (run ops s) \<noteq> None"
proof -
  have "settings (run ops s) = settings s"
    using config_run [of s ops] by (simp add: same_config_def)
  with assms(2) have "upgradeHighRes (settings s)" by simp
  from init_creates_wrapper [OF assms(1) this] wrapper_run [of s ops]
  show ?thesis by (simp add: wrapper_kept_def)
qed


text \<open>
  An upgrade that runs to its end: when exactly one image is tagged with the frame, it
  is not upgraded, and \<open>$frame\<close> still points at it when the staged image has loaded,
  the image is replaced by the displayed high-resolution image, and a further
  \<open>upgradeFrame\<close> of the frame stages nothing.
\<close>

lemma frame_imgs_append [simp]: "frame_imgs (xs @ ys) f = frame_imgs xs f @ frame_imgs ys f"
  by (simp add: frame_imgs_def)

lemma frame_imgs_Img [simp]:
  "frame_imgs (Img i im # cs) f = (if tag im = f then (i, im) # frame_imgs cs f else frame_imgs cs f)"
  by (simp add: frame_imgs_def)

lemma insert_after_prefix:
  assumes "\<forall>c \<in> set pre. \<not> is_ref refs c"
  shows "insert_after refs html n (pre @ rest) =
           (pre @ fst (insert_after refs html n rest), snd (insert_after refs html n rest))"
  using assms by (induction pre) (simp_all add: Let_def split: prod.splits)

lemma insert_after_no_ref:
  assumes "\<forall>c \<in> set cs. \<not> is_ref refs c"
  shows "insert_after refs html n cs = (cs, n)"
  using insert_after_prefix [OF assms, of html n "[]"] by simp

lemma show_next_no_ref:
  assumes "\<forall>c \<in> set cs. \<not> is_ref refs c"
  shows "show_next refs cs = cs"
  using assms by (induction refs cs rule: show_next.induct) simp_all

lemma show_next_prefix:
  assumes "\<forall>c \<in> set pre. \<not> is_ref refs c"
  shows "show_next refs (pre @ c # rest) = pre @ show_next refs (c # rest)"
  using assms
proof (induction pre)
  case Nil
  show ?case by simp
next
  case (Cons p pre)
  then have np: "\<not> is_ref refs p" and ih: "show_next refs (pre @ c # rest) = pre @ show_next refs (c # rest)"
    by simp_all
  obtain d ds where dd: "pre @ c # rest = d # ds" by (cases "pre @ c # rest") auto
  have "show_next refs ((p # pre) @ c # rest) = p # show_next refs (d # ds)"
    using np by (simp add: dd)
  with ih show ?case by (simp add: dd)
qed

lemma upgrade_completes:
  assumes d: "dom s = pre @ Img i im # post" and tg: "tag im = f" and lo: "\<not> upgraded im"
    and npre: "f \<notin> set (tags pre)" and npost: "f \<notin> set (tags post)"
    and ipre: "\<forall>c \<in> set pre. \<not> is_ref [i] c" and ipost: "\<forall>c \<in> set post. \<not> is_ref [i] c"
    and fresh: "i \<noteq> next_id s" and w: "upgradeWrapper s = Some w"
  shows "\<exists>s2 s3. upgradeFrame f s = Done s2 \<and> upgradeLoaded f s2 = Done s3 \<and>
           dom s3 = pre @ Img (next_id s) ((generateImg s f True)\<lparr>visible := True\<rparr>) # post \<and>
           frame_imgs (dom s3) f = [(next_id s, (generateImg s f True)\<lparr>visible := True\<rparr>)] \<and>
           upgradeFrame f s3 = Done (s3\<lparr>frame_ref := [next_id s]\<rparr>) \<and>
           (f \<noteq> NaN \<longrightarrow> js_mem f (preloadedBig s3))"
proof -
  let ?hi = "generateImg s f True"
  let ?n = "next_id s"
  have epre: "frame_imgs pre f = []" and epost: "frame_imgs post f = []"
    using npre npost by (simp_all add: frame_imgs_empty_iff)
  have fi: "frame_imgs (dom s) f = [(i, im)]"
    using epre epost tg unfolding d by simp
  define s2 where "s2 = s\<lparr>frame_ref := [i], upgradeWrapper := Some [?hi],
                          pending := pending s @ [UpgradeCb f]\<rparr>"
  have hi2: "generateImg (s\<lparr>frame_ref := [i]\<rparr>) f True = ?hi" by (simp add: generateImg_def)
  have u1: "upgradeFrame f s = Done s2"
    using fi lo w hi2 by (simp add: upgradeFrame_def Let_def s2_def)
  have ia: "insert_after [i] [?hi] ?n (dom s) = (pre @ Img i im # Img ?n ?hi # post, Suc ?n)"
    unfolding d insert_after_prefix [OF ipre] using insert_after_no_ref [OF ipost] by simp
  have nref: "\<not> is_ref [i] (Img ?n (?hi\<lparr>visible := True\<rparr>))" using fresh by simp
  have "show_next [i] (Img ?n (?hi\<lparr>visible := True\<rparr>) # post) = Img ?n (?hi\<lparr>visible := True\<rparr>) # post"
    by (rule show_next_no_ref) (use nref ipost in auto)
  then have sn: "show_next [i] (pre @ Img i im # Img ?n ?hi # post) =
               pre @ Img i im # Img ?n (?hi\<lparr>visible := True\<rparr>) # post"
    unfolding show_next_prefix [OF ipre] by simp
  have fl: "filter (\<lambda>c. \<not> is_ref [i] c) (pre @ Img i im # Img ?n (?hi\<lparr>visible := True\<rparr>) # post) =
              pre @ Img ?n (?hi\<lparr>visible := True\<rparr>) # post"
    using ipre ipost fresh by (simp add: filter_id_conv)
  define s3 where "s3 = markBigAsPreloaded f
     (s2\<lparr>dom := pre @ Img ?n (?hi\<lparr>visible := True\<rparr>) # post, next_id := Suc ?n,
         upgradeWrapper := Some []\<rparr>)"
  have fpre: "filter (\<lambda>c. \<not> is_ref [i] c) pre = pre"
    and fpost: "filter (\<lambda>c. \<not> is_ref [i] c) post = post"
    using ipre ipost by (simp_all add: filter_id_conv)
  have u2: "upgradeLoaded f s2 = Done s3"
    unfolding upgradeLoaded_def s3_def using fresh
    by (simp add: s2_def ia sn fpre fpost Let_def)
  have d3: "dom s3 = pre @ Img ?n (?hi\<lparr>visible := True\<rparr>) # post"
    by (simp add: s3_def markBigAsPreloaded_def)
  have f3: "frame_imgs (dom s3) f = [(?n, ?hi\<lparr>visible := True\<rparr>)]"
    using epre epost unfolding d3 by simp
  have up: "upgraded (?hi\<lparr>visible := True\<rparr>)" by (simp add: generateImg_def)
  have u3: "upgradeFrame f s3 = Done (s3\<lparr>frame_ref := [?n]\<rparr>)"
    using upgradeFrame_already_upgraded [OF f3 up] by (simp add: f3)
  have m3: "f \<noteq> NaN \<longrightarrow> js_mem f (preloadedBig s3)"
    by (simp add: s3_def markBigAsPreloaded_def js_mem_iff)
  from u1 u2 d3 f3 u3 m3 show ?thesis by blast
qed

subsection \<open>Frame numbers as attribute strings\<close>

text \<open>
  \<open>String\<close> maps different numbers to different strings, so comparing the
  \<open>data-frame\<close> attributes of two images is comparing their frame numbers.
\<close>

lemma digit_char_inj:
  assumes "a < 10" and "b < 10" and "digit_char a = digit_char b"
  shows "a = b"
proof -
  have a: "a \<in> {0, 1, 2, 3, 4, 5, 6, 7, 8, 9}" using assms(1) by auto
  have b: "b \<in> {0, 1, 2, 3, 4, 5, 6, 7, 8, 9}" using assms(2) by auto
  show ?thesis using a b assms(3) by (auto simp: digit_char_def)
qed

lemma digit_char_digit:
  assumes "a < 10"
  shows "digit_char a \<in> set ''0123456789''"
proof -
  have a: "a \<in> {0, 1, 2, 3, 4, 5, 6, 7, 8, 9}" using assms(1) by auto
  then show ?thesis by (auto simp: digit_char_def)
qed

lemma dec_nat_nonempty: "dec_nat n \<noteq> []"
  by (subst dec_nat.simps) simp

lemma dec_nat_digits: "set (dec_nat n) \<subseteq> set ''0123456789''"
proof (induction n rule: dec_nat.induct)
  case (1 n)
  show ?case
  proof (cases "n < 10")
    case True
    with digit_char_digit [of n] show ?thesis by (subst dec_nat.simps) simp
  next
    case False
    have "n mod 10 < 10" by simp
    from digit_char_digit [OF this] 1 [OF False] False
    show ?thesis by (subst dec_nat.simps) simp
  qed
qed

lemma dec_nat_inj: "dec_nat n = dec_nat m \<Longrightarrow> n = m"
proof (induction n arbitrary: m rule: dec_nat.induct)
  case (1 n)
  have en: "dec_nat n = (if n < 10 then [digit_char n]
                         else dec_nat (n div 10) @ [digit_char (n mod 10)])"
    by (subst dec_nat.simps) simp
  have em: "dec_nat m = (if m < 10 then [digit_char m]
                         else dec_nat (m div 10) @ [digit_char (m mod 10)])"
    by (subst dec_nat.simps) simp
  show ?case
  proof (cases "n < 10")
    case n: True
    show ?thesis
    proof (cases "m < 10")
      case True
      with n "1.prems" en em show ?thesis by (simp add: digit_char_inj)
    next
      case False
      with n "1.prems" en em dec_nat_nonempty [of "m div 10"] show ?thesis by simp
    qed
  next
    case n: False
    show ?thesis
    proof (cases "m < 10")
      case True
      with n "1.prems" en em dec_nat_nonempty [of "n div 10"] show ?thesis by simp
    next
      case False
      with n "1.prems" en em have
        a: "dec_nat (n div 10) = dec_nat (m div 10)" and
        b: "digit_char (n mod 10) = digit_char (m mod 10)" by simp_all
      from "1.IH" [OF n a] have d: "n div 10 = m div 10" .
      have "n mod 10 = m mod 10" using b by (intro digit_char_inj) simp_all
      with d show ?thesis by (metis div_mult_mod_eq)
    qed
  qed
qed

lemma dec_nat_not_word:
  "dec_nat n \<noteq> ''NaN''" "dec_nat n \<noteq> ''Infinity''" "dec_nat n \<noteq> ''-Infinity''"
  "dec_nat n \<noteq> CHR ''-'' # cs"
  using dec_nat_digits [of n] by auto

lemma js_String_inj: "js_String a = js_String b \<Longrightarrow> a = b"
proof (cases a; cases b)
  fix x y assume ab: "a = Num x" "b = Num y" and eq: "js_String a = js_String b"
  consider "x < 0" "y < 0" | "x < 0" "0 \<le> y" | "0 \<le> x" "y < 0" | "0 \<le> x" "0 \<le> y"
    by linarith
  then show "a = b"
  proof cases
    case 1
    with eq ab have "dec_nat (nat (- x)) = dec_nat (nat (- y))" by simp
    from dec_nat_inj [OF this] 1 ab show ?thesis by simp
  next
    case 2
    with eq ab have "dec_nat (nat y) = CHR ''-'' # dec_nat (nat (- x))" by simp
    with dec_nat_not_word(4) show ?thesis by blast
  next
    case 3
    with eq ab have "dec_nat (nat x) = CHR ''-'' # dec_nat (nat (- y))" by simp
    with dec_nat_not_word(4) show ?thesis by blast
  next
    case 4
    with eq ab have "dec_nat (nat x) = dec_nat (nat y)" by simp
    from dec_nat_inj [OF this] 4 ab show ?thesis by simp
  qed
qed (use dec_nat_not_word in \<open>auto split: if_splits\<close>)

end
